theory Spec2Isabelle
  imports Complex_Main
begin

section \<open>Python values used by \<^verbatim>\<open>Modules/Vitals/vitals.py\<close>\<close>

text \<open>
  Python floats are modelled by the reals (exact arithmetic); the three non-finite
  doubles appear only where the source tests for them, at the estimator's output.
  Strings are byte lists, exceptions carry the text that \<^verbatim>\<open>str(e)\<close> gives.
\<close>

datatype py_exn =
    StopIteration
  | OSError string
  | FileNotFoundError string
  | RuntimeError string
  | ValueError string
  | QueueFull
  | OtherException string

fun str_exn :: "py_exn \<Rightarrow> string" where
  "str_exn StopIteration = []"
| "str_exn (OSError s) = s"
| "str_exn (FileNotFoundError s) = s"
| "str_exn (RuntimeError s) = s"
| "str_exn (ValueError s) = s"
| "str_exn QueueFull = []"
| "str_exn (OtherException s) = s"

text \<open>\<^verbatim>\<open>except OSError\<close> also catches the subclass FileNotFoundError.\<close>

fun is_OSError :: "py_exn \<Rightarrow> bool" where
  "is_OSError (OSError s) = True"
| "is_OSError (FileNotFoundError s) = True"
| "is_OSError e = False"

datatype pyval = PNone | PBool bool | PInt int | PFloat real | PStr string

type_synonym pydict = "(string \<times> pyval) list"

definition dict_get :: "pydict \<Rightarrow> string \<Rightarrow> pyval" where
  "dict_get d k = (case map_of d k of None \<Rightarrow> PNone | Some v \<Rightarrow> v)"

fun truthy :: "pyval \<Rightarrow> bool" where
  "truthy PNone = False"
| "truthy (PBool b) = b"
| "truthy (PInt i) = (i \<noteq> 0)"
| "truthy (PFloat x) = (x \<noteq> 0)"
| "truthy (PStr s) = (s \<noteq> [])"

fun str_nat :: "nat \<Rightarrow> string" where
  "str_nat n = (if n < 10 then [''0123456789'' ! n]
                else str_nat (n div 10) @ [''0123456789'' ! (n mod 10)])"

declare str_nat.simps [simp del]

definition str_int :: "int \<Rightarrow> string" where
  "str_int i = (if i < 0 then CHR ''-'' # str_nat (nat (- i)) else str_nat (nat i))"

definition upper_char :: "char \<Rightarrow> char" where
  "upper_char c =
     (case map_of (zip ''abcdefghijklmnopqrstuvwxyz'' ''ABCDEFGHIJKLMNOPQRSTUVWXYZ'') c of
        Some u \<Rightarrow> u | None \<Rightarrow> c)"

definition str_upper :: "string \<Rightarrow> string" where
  "str_upper s = map upper_char s"

definition lower_char :: "char \<Rightarrow> char" where
  "lower_char c =
     (case map_of (zip ''ABCDEFGHIJKLMNOPQRSTUVWXYZ'' ''abcdefghijklmnopqrstuvwxyz'') c of
        Some l \<Rightarrow> l | None \<Rightarrow> c)"

definition str_lower :: "string \<Rightarrow> string" where
  "str_lower s = map lower_char s"

definition is_space :: "char \<Rightarrow> bool" where
  "is_space c = (c \<in> set [CHR 0x09, CHR 0x0A, CHR 0x0B, CHR 0x0C, CHR 0x0D,
                           CHR 0x1C, CHR 0x1D, CHR 0x1E, CHR 0x1F, CHR 0x20])"

definition str_strip :: "string \<Rightarrow> string" where
  "str_strip s = rev (dropWhile is_space (rev (dropWhile is_space s)))"

definition str_endswith :: "string \<Rightarrow> string \<Rightarrow> bool" where
  "str_endswith s suf = (length suf \<le> length s \<and> drop (length s - length suf) s = suf)"

text \<open>\<^verbatim>\<open>s.find(sub)\<close>: the first index, \<open>None\<close> for Python's \<open>-1\<close>.\<close>

fun str_find :: "string \<Rightarrow> string \<Rightarrow> nat option" where
  "str_find [] sub = (if sub = [] then Some 0 else None)"
| "str_find (c # cs) sub =
     (if take (length sub) (c # cs) = sub then Some 0 else map_option Suc (str_find cs sub))"

definition digit_of :: "char \<Rightarrow> nat option" where
  "digit_of c = map_of (zip ''0123456789'' [0, 1, 2, 3, 4, 5, 6, 7, 8, 9]) c"

text \<open>
  The digits of \<^verbatim>\<open>int(s)\<close>: decimal digits, single underscores allowed between two
  digits only.
\<close>

fun parse_digits :: "string \<Rightarrow> nat \<Rightarrow> bool \<Rightarrow> nat option" where
  "parse_digits [] acc prev_digit = (if prev_digit then Some acc else None)"
| "parse_digits (c # cs) acc prev_digit =
     (if c = CHR ''_'' then
        (if prev_digit \<and> cs \<noteq> [] then parse_digits cs acc False else None)
      else (case digit_of c of
              None \<Rightarrow> None
            | Some d \<Rightarrow> parse_digits cs (10 * acc + d) True))"

text \<open>
  \<^verbatim>\<open>int(s)\<close> on a string: surrounding whitespace is dropped, one sign is allowed.
  The text of the ValueError quotes the argument (plainly: the escapes of \<^verbatim>\<open>repr\<close> are
  not modelled; no property below reads that text).
\<close>

definition py_int :: "string \<Rightarrow> py_exn + int" where
  "py_int s =
     (let t = str_strip s;
          neg = (t \<noteq> [] \<and> hd t = CHR ''-'');
          body = (if t \<noteq> [] \<and> (hd t = CHR ''-'' \<or> hd t = CHR ''+'') then tl t else t)
      in case parse_digits body 0 False of
           None \<Rightarrow> Inl (ValueError (''invalid literal for int() with base 10: ''
                                      @ [CHR 0x27] @ s @ [CHR 0x27]))
         | Some n \<Rightarrow> Inr (if neg then - int n else int n))"

text \<open>\<^verbatim>\<open>round(x)\<close> and \<^verbatim>\<open>round(x, 1)\<close>: to the nearest, ties to the even neighbour.\<close>

definition py_round :: "real \<Rightarrow> int" where
  "py_round x =
     (let f = \<lfloor>x\<rfloor>; d = x - of_int f
      in if d < 1 / 2 then f else if 1 / 2 < d then f + 1 else if even f then f else f + 1)"

definition py_round1 :: "real \<Rightarrow> real" where
  "py_round1 x = of_int (py_round (x * 10)) / 10"

text \<open>
  A Python float is an IEEE 754 double. \<open>fl\<close> rounds a real to the nearest double, ties to
  the even significand: the significand has 53 bits, the exponent of the last bit is at
  least \<open>-1074\<close> (the subnormal range). The four arithmetic operations are correctly
  rounded, so each is the exact operation followed by \<open>fl\<close>. Overflow to infinity is not
  part of \<open>fl\<close>: the floats of this program are bounded by the range test of the estimate,
  far below \<open>2 ^ 1024\<close>.
\<close>

definition ulp_exp :: "real \<Rightarrow> int" where
  "ulp_exp x = max \<lfloor>log 2 \<bar>x\<bar>\<rfloor> (- 1022) - 52"

definition fl :: "real \<Rightarrow> real" where
  "fl x = (if x = 0 then 0
           else real_of_int (py_round (x / 2 powr real_of_int (ulp_exp x)))
                * 2 powr real_of_int (ulp_exp x))"

definition fadd :: "real \<Rightarrow> real \<Rightarrow> real" where
  "fadd x y = fl (x + y)"

definition fsub :: "real \<Rightarrow> real \<Rightarrow> real" where
  "fsub x y = fl (x - y)"

definition fmul :: "real \<Rightarrow> real \<Rightarrow> real" where
  "fmul x y = fl (x * y)"

definition fdiv :: "real \<Rightarrow> real \<Rightarrow> real" where
  "fdiv x y = fl (x / y)"

text \<open>\<^verbatim>\<open>float(t)\<close> of the value the rounding policy left in \<^verbatim>\<open>t\<close>.\<close>

fun py_float :: "pyval \<Rightarrow> real" where
  "py_float (PInt i) = of_int i"
| "py_float (PFloat x) = x"
| "py_float (PBool b) = (if b then 1 else 0)"
| "py_float v = 0"

section \<open>Temperature (DS18B20)\<close>

text \<open>
  The 1-Wire file system is the environment: what the glob under \<^verbatim>\<open>BASE_DIR\<close> finds,
  and what the k-th call of \<^verbatim>\<open>_read_raw_lines\<close> on a device file returns (the stripped
  lines, or the exception of the failed read).
\<close>

record w1_env =
  devices :: "string list"
  raw_lines :: "string \<Rightarrow> nat \<Rightarrow> py_exn + string list"

definition path_join :: "string \<Rightarrow> string \<Rightarrow> string" where
  "path_join a b =
     (if b \<noteq> [] \<and> hd b = CHR ''/'' then b
      else if a = [] \<or> last a = CHR ''/'' then a @ b
      else a @ ''/'' @ b)"

definition no_device_msg :: string where
  "no_device_msg = ''No DS18B20 found under /sys/bus/w1/devices/. ''
     @ ''Enable 1-Wire and check wiring (GPIO4 / pin 7, 4.7k pull-up to 3.3V).''"

definition get_device_file :: "w1_env \<Rightarrow> py_exn + string" where
  "get_device_file env =
     (if devices env = [] then Inl (FileNotFoundError no_device_msg)
      else Inr (path_join (hd (devices env)) ''w1_slave''))"

text \<open>
  The retry loop of \<^verbatim>\<open>read_temp_c_float\<close>: \<open>k\<close> counts the reads made so far,
  \<open>n\<close> the attempts left.
\<close>

fun read_attempts :: "w1_env \<Rightarrow> string \<Rightarrow> nat \<Rightarrow> nat \<Rightarrow> py_exn + real" where
  "read_attempts env devfile k 0 =
     Inl (RuntimeError ''Failed to get a valid reading (CRC not YES).'')"
| "read_attempts env devfile k (Suc n) =
     (case raw_lines env devfile k of
        Inl e \<Rightarrow> Inl e
      | Inr lines \<Rightarrow>
          if 2 \<le> length lines \<and> str_endswith (str_strip (lines ! 0)) ''YES'' then
            (case str_find (lines ! 1) ''t='' of
               None \<Rightarrow> read_attempts env devfile (Suc k) n
             | Some pos \<Rightarrow>
                 (case py_int (drop (pos + 2) (lines ! 1)) of
                    Inl e \<Rightarrow> Inl e
                  | Inr milli_c \<Rightarrow> Inr (of_int milli_c / 1000)))
          else read_attempts env devfile (Suc k) n)"

definition read_temp_c_float :: "w1_env \<Rightarrow> nat \<Rightarrow> py_exn + real" where
  "read_temp_c_float env max_retries =
     (case get_device_file env of
        Inl e \<Rightarrow> Inl e
      | Inr devfile \<Rightarrow> read_attempts env devfile 0 max_retries)"

definition read_temp :: "w1_env \<Rightarrow> string \<Rightarrow> string \<Rightarrow> pydict" where
  "read_temp env scale rounding =
     (case read_temp_c_float env 3 of
        Inl e \<Rightarrow> [(''ok'', PBool False), (''error'', PStr (str_exn e))]
      | Inr t0 \<Rightarrow>
          (let t = (if rounding = ''floor'' then PInt \<lfloor>t0\<rfloor>
                    else if rounding = ''ceil'' then PInt \<lceil>t0\<rceil>
                    else PFloat (py_round1 t0))
           in if str_upper scale = ''F''
              then [(''ok'', PBool True), (''tempF'', PFloat (py_round1 (py_float t * 9 / 5 + 32)))]
              else [(''ok'', PBool True), (''tempC'', PFloat (py_float t))]))"

section \<open>Heart rate: the estimate of one window\<close>

text \<open>HR tunables.\<close>

definition SAMPLE_HZ :: nat where "SAMPLE_HZ = 100"
definition WINDOW_SEC :: nat where "WINDOW_SEC = 8"
definition STEP_SEC :: nat where "STEP_SEC = 1"
definition EMA_ALPHA :: real where "EMA_ALPHA = 0.25"
definition USE_CHANNEL :: string where "USE_CHANNEL = ''ir''"
definition MAX_RESETS :: nat where "MAX_RESETS = 3"

datatype pyfloat = Finite real | PosInf | NegInf | NaN

text \<open>
  HeartPy is outside the repository. Either \<^verbatim>\<open>hp.process\<close> raises (or the entry
  \<^verbatim>\<open>'bpm'\<close> of its measures does not convert to a float, which raises in the same
  \<^verbatim>\<open>try\<close>), or it returns its measures, of which the source reads the entry
  \<^verbatim>\<open>'bpm'\<close> only (\<open>None\<close>: no such key).
\<close>

datatype hp_result = HpRaises | HpMeasures "pyfloat option"

type_synonym estimator = "real list \<Rightarrow> nat \<Rightarrow> hp_result"

text \<open>
  \<^verbatim>\<open>np.mean\<close> of a list of floats: the array of the doubles, summed by NumPy's pairwise
  summation and divided by the count. The summation adds fewer than 8 values one after
  the other from zero; up to 128 values it keeps 8 running sums, one per position modulo
  8 over the full groups of 8, adds them as \<open>((r0 + r1) + (r2 + r3)) + ((r4 + r5) + (r6 + r7))\<close>
  and then adds the values left over; a longer array is split at half its length, rounded
  down to a multiple of 8. The reduction adds the result to its initial value zero.
\<close>

fun acc8 :: "real list \<Rightarrow> real list \<Rightarrow> real list" where
  "acc8 r (x0 # x1 # x2 # x3 # x4 # x5 # x6 # x7 # xs) =
     acc8 (map2 fadd r [x0, x1, x2, x3, x4, x5, x6, x7]) xs"
| "acc8 r xs = r"

definition block_sum :: "real list \<Rightarrow> real" where
  "block_sum xs =
     (let r = acc8 (take 8 xs) (drop 8 xs);
          res = fadd (fadd (fadd (r ! 0) (r ! 1)) (fadd (r ! 2) (r ! 3)))
                     (fadd (fadd (r ! 4) (r ! 5)) (fadd (r ! 6) (r ! 7)))
      in foldl fadd res (drop (length xs - length xs mod 8) xs))"

function pairwise_sum :: "real list \<Rightarrow> real" where
  "pairwise_sum xs =
     (if length xs < 8 then foldl fadd 0 xs
      else if length xs \<le> 128 then block_sum xs
      else fadd (pairwise_sum (take (length xs div 2 - length xs div 2 mod 8) xs))
                (pairwise_sum (drop (length xs div 2 - length xs div 2 mod 8) xs)))"
  by pat_completeness auto
termination
  by (relation "measure length") auto

declare pairwise_sum.simps [simp del]

definition np_mean :: "real list \<Rightarrow> real" where
  "np_mean xs = fdiv (fadd 0 (pairwise_sum (map fl xs))) (real (length xs))"

text \<open>
  \<^verbatim>\<open>np.std\<close>: the mean of the squared differences from the mean, and its square root,
  each operation in doubles.
\<close>

definition np_std :: "real list \<Rightarrow> real" where
  "np_std xs =
     fl (sqrt (np_mean (map (\<lambda>x. fmul (fsub (fl x) (np_mean xs)) (fsub (fl x) (np_mean xs))) xs)))"

text \<open>\<^verbatim>\<open>(sig - np.mean(sig)) / (np.std(sig) + 1e-9)\<close>\<close>

definition normalize_sig :: "real list \<Rightarrow> real list" where
  "normalize_sig sig =
     map (\<lambda>x. fdiv (fsub (fl x) (np_mean sig)) (fadd (np_std sig) (fl (1 / 10 ^ 9)))) sig"

definition compute_bpm :: "estimator \<Rightarrow> real list \<Rightarrow> nat \<Rightarrow> real option \<times> string" where
  "compute_bpm hp sig fs =
     (case hp (normalize_sig sig) fs of
        HpRaises \<Rightarrow> (None, ''error'')
      | HpMeasures meas \<Rightarrow>
          (case (case meas of None \<Rightarrow> NaN | Some v \<Rightarrow> v) of
             Finite bpm \<Rightarrow>
               if bpm < 20 \<or> 220 < bpm then (None, ''out_of_range'') else (Some bpm, ''ok'')
           | _ \<Rightarrow> (None, ''out_of_range'')))"

section \<open>Heart rate: the rolling window\<close>

text \<open>
  The sensor and the clock are the environment. A response holds what each external call
  returns at the moment the worker makes its next call: \<^verbatim>\<open>time.time()\<close>, the
  constructor \<^verbatim>\<open>MAX30102()\<close> (\<open>None\<close>: an instance; the six configuration calls of
  \<^verbatim>\<open>_init_sensor\<close> swallow their exceptions), and \<^verbatim>\<open>m.read_sequential()\<close>.
  \<^verbatim>\<open>time.sleep\<close> has no effect on the data.
\<close>

record response =
  clock :: real
  sensor_new :: "py_exn option"
  sensor_read :: "py_exn + (int list \<times> int list)"

definition init_sensor :: "response \<Rightarrow> py_exn + unit" where
  "init_sensor r = (case sensor_new r of Some e \<Rightarrow> Inl e | None \<Rightarrow> Inr ())"

text \<open>\<^verbatim>\<open>xs[-n:]\<close>; for \<open>n = 0\<close> Python reads \<^verbatim>\<open>xs[0:]\<close>, the whole list.\<close>

definition last_n :: "nat \<Rightarrow> 'a list \<Rightarrow> 'a list" where
  "last_n n xs = (if n = 0 then xs else drop (length xs - n) xs)"

text \<open>
  The generator \<^verbatim>\<open>_collect\<close>, one external call per step. Its states: not started;
  in the initial fill before the read, with the buffers \<open>red\<close>, \<open>ir\<close> and the start time;
  in the initial fill before the timeout test; suspended after a yield or polling for the
  next window.
\<close>

datatype collect_state =
    GenNew
  | FillRead "int list" "int list" real
  | FillClock "int list" "int list" real
  | Poll "int list" "int list"

datatype collect_result = Running collect_state | Yield collect_state | Raise py_exn

fun buf_red :: "collect_state \<Rightarrow> int list" where
  "buf_red GenNew = []"
| "buf_red (FillRead red ir start) = red"
| "buf_red (FillClock red ir start) = red"
| "buf_red (Poll red ir) = red"

fun buf_ir :: "collect_state \<Rightarrow> int list" where
  "buf_ir GenNew = []"
| "buf_ir (FillRead red ir start) = ir"
| "buf_ir (FillClock red ir start) = ir"
| "buf_ir (Poll red ir) = ir"

text \<open>\<^verbatim>\<open>if r and i: red.extend(r); ir.extend(i)\<close>\<close>

definition extend_both :: "int list \<Rightarrow> int list \<Rightarrow> int list \<times> int list \<Rightarrow> int list \<times> int list" where
  "extend_both red ir ri =
     (if fst ri \<noteq> [] \<and> snd ri \<noteq> [] then (red @ fst ri, ir @ snd ri) else (red, ir))"

definition fill_timeout :: real where
  "fill_timeout = real (max (3 * WINDOW_SEC) 30)"

fun collect_step :: "nat \<Rightarrow> nat \<Rightarrow> response \<Rightarrow> collect_state \<Rightarrow> collect_result" where
  "collect_step need step r GenNew =
     (if 0 < need then Running (FillRead [] [] (clock r))
      else Yield (Poll (last_n need []) (last_n need [])))"
| "collect_step need step r (FillRead red ir start) =
     (case sensor_read r of
        Inl e \<Rightarrow> Raise e
      | Inr ri \<Rightarrow> Running (FillClock (fst (extend_both red ir ri)) (snd (extend_both red ir ri)) start))"
| "collect_step need step r (FillClock red ir start) =
     (if fill_timeout < clock r - start then Yield (Poll (last_n need red) (last_n need ir))
      else if length ir < need then Running (FillRead red ir start)
      else Yield (Poll (last_n need red) (last_n need ir)))"
| "collect_step need step r (Poll red ir) =
     (case sensor_read r of
        Inl e \<Rightarrow> Raise e
      | Inr ri \<Rightarrow>
          if fst ri \<noteq> [] \<and> snd ri \<noteq> [] then
            (if need + step \<le> length (ir @ snd ri)
             then Yield (Poll (last_n need (red @ fst ri)) (last_n need (ir @ snd ri)))
             else Running (Poll (red @ fst ri) (ir @ snd ri)))
          else Running (Poll red ir))"

text \<open>
  \<^verbatim>\<open>next(stream)\<close>: the generator runs until it yields or raises; with the responses
  used up it is still inside the call.
\<close>

fun collect_next :: "nat \<Rightarrow> nat \<Rightarrow> response list \<Rightarrow> collect_state \<Rightarrow> collect_result" where
  "collect_next need step [] g = Running g"
| "collect_next need step (r # rs) g =
     (case collect_step need step r g of
        Running g' \<Rightarrow> collect_next need step rs g'
      | Yield g' \<Rightarrow> Yield g'
      | Raise e \<Rightarrow> Raise e)"

text \<open>The window a yield hands out: \<^verbatim>\<open>np.array(red, float), np.array(ir, float)\<close>.\<close>

definition window_of :: "collect_state \<Rightarrow> real list \<times> real list" where
  "window_of g = (map real_of_int (buf_red g), map real_of_int (buf_ir g))"

section \<open>Heart rate: the session\<close>

text \<open>
  \<^verbatim>\<open>queue.Queue(maxsize=256)\<close>, oldest item first; an item is a line or \<open>None\<close>, the
  end marker.
\<close>

type_synonym live_queue = "string option list"

definition maxsize :: nat where "maxsize = 256"

definition put_nowait :: "live_queue \<Rightarrow> string option \<Rightarrow> py_exn + live_queue" where
  "put_nowait qu x = (if length qu < maxsize then Inr (qu @ [x]) else Inl QueueFull)"

text \<open>\<^verbatim>\<open>try: q.put_nowait(x)\<close> / \<^verbatim>\<open>except queue.Full: pass\<close>\<close>

definition try_put :: "live_queue \<Rightarrow> string option \<Rightarrow> live_queue" where
  "try_put qu x = (case put_nowait qu x of Inl e \<Rightarrow> qu | Inr qu' \<Rightarrow> qu')"

text \<open>
  Where the worker thread stands: before reading \<open>start_t\<close>, at the test of the outer
  loop, in \<^verbatim>\<open>_init_sensor\<close>, inside \<^verbatim>\<open>next(stream)\<close>, at the test of the inner loop
  (holding the window just yielded), after the loops, ended.
\<close>

datatype worker_pc =
    Start
  | OuterTest
  | InitSensor
  | InNext collect_state
  | InnerTest collect_state
  | Finalize
  | Done

text \<open>
  The locals of \<^verbatim>\<open>worker\<close>, the queue, the shared \<^verbatim>\<open>state\<close> dictionary (\<open>avg\<close> and the
  event \<open>done\<close>), and the consumer of \<^verbatim>\<open>dbg_iter\<close>: the lines it has yielded and
  whether it has left its loop.
\<close>

record session =
  pc :: worker_pc
  resets :: nat
  m :: bool
  prev_live :: "real option"
  good_bpms :: "real list"
  start_t :: real
  q :: live_queue
  avg :: "int option"
  done_flag :: bool
  lines :: "string list"
  ended :: bool

definition session0 :: session where
  "session0 = \<lparr>pc = Start, resets = 0, m = False, prev_live = None, good_bpms = [],
     start_t = 0, q = [], avg = None, done_flag = False, lines = [], ended = False\<rparr>"

definition need_samples :: nat where
  "need_samples = SAMPLE_HZ * WINDOW_SEC"

definition step_samples :: nat where
  "step_samples = SAMPLE_HZ * STEP_SEC"

text \<open>
  \<^verbatim>\<open>live = bpm if prev_live is None else (EMA_ALPHA*bpm + (1-EMA_ALPHA)*prev_live)\<close>,
  in doubles: the difference, the two products and the sum are each rounded. The
  estimate and the previous value are floats, read as the doubles they are (\<open>fl\<close> leaves
  a double as it is).
\<close>

definition smooth :: "real option \<Rightarrow> real \<Rightarrow> real" where
  "smooth prev bpm =
     (case prev of
        None \<Rightarrow> fl bpm
      | Some p \<Rightarrow> fadd (fmul EMA_ALPHA (fl bpm)) (fmul (fsub 1 EMA_ALPHA) (fl p)))"

text \<open>The dictionary of failure lines, with the default of \<^verbatim>\<open>.get\<close>.\<close>

definition status_msg :: "string \<Rightarrow> string" where
  "status_msg status =
     (case map_of [(''noisy'', ''LIVE  --  (noisy / adjust finger)''),
                   (''error'', ''LIVE  --  (processing error)''),
                   (''out_of_range'', ''LIVE  --  (out of range)'')] status of
        Some msg \<Rightarrow> msg | None \<Rightarrow> ''LIVE  --'')"

text \<open>
  The body of the inner loop up to the message: from the estimate, the smoother state and
  the accepted list to the new state, the new list and the line.
\<close>

definition live_tick ::
  "real option \<times> string \<Rightarrow> real option \<Rightarrow> real list \<Rightarrow> real option \<times> real list \<times> string" where
  "live_tick est prev good =
     (case fst est of
        Some bpm \<Rightarrow>
          (let live = smooth prev bpm
           in (Some live, good @ [live], ''LIVE  '' @ str_int (py_round live) @ '' BPM''))
      | None \<Rightarrow> (prev, good, status_msg (snd est)))"

definition process_window :: "estimator \<Rightarrow> real list \<times> real list \<Rightarrow> session \<Rightarrow> session" where
  "process_window hp w s =
     (let sig = (if str_lower USE_CHANNEL = ''ir'' then snd w else fst w);
          t = live_tick (compute_bpm hp sig SAMPLE_HZ) (prev_live s) (good_bpms s)
      in s\<lparr>prev_live := fst t, good_bpms := fst (snd t),
            q := try_put (q s) (Some (snd (snd t)))\<rparr>)"

text \<open>The three handlers of the outer loop's \<^verbatim>\<open>try\<close>.\<close>

definition on_exception :: "py_exn \<Rightarrow> session \<Rightarrow> session" where
  "on_exception e s =
     (if e = StopIteration then s\<lparr>pc := OuterTest\<rparr>
      else if is_OSError e then
        (let s1 = s\<lparr>resets := resets s + 1,
                     q := try_put (q s) (Some (''I2C error: '' @ str_exn e @ ''. Reinitializing''
                                               @ [CHR 0xE2, CHR 0x80, CHR 0xA6])),
                     m := False\<rparr>
         in if MAX_RESETS < resets s1 then s1\<lparr>pc := Finalize\<rparr> else s1\<lparr>pc := OuterTest\<rparr>)
      else s\<lparr>q := try_put (q s) (Some (''Unexpected error: '' @ str_exn e)), pc := OuterTest\<rparr>)"

text \<open>\<^verbatim>\<open>int(round(float(np.mean(good_bpms)))) if good_bpms else None\<close>\<close>

definition final_avg :: "real list \<Rightarrow> int option" where
  "final_avg good = (if good \<noteq> [] then Some (py_round (np_mean good)) else None)"

definition finalize :: "session \<Rightarrow> session" where
  "finalize s = s\<lparr>avg := final_avg (good_bpms s), q := try_put (q s) None,
                   done_flag := True, pc := Done\<rparr>"

fun worker_step :: "estimator \<Rightarrow> real \<Rightarrow> response \<Rightarrow> session \<Rightarrow> worker_pc \<Rightarrow> session" where
  "worker_step hp duration_sec r s Start = s\<lparr>start_t := clock r, pc := OuterTest\<rparr>"
| "worker_step hp duration_sec r s OuterTest =
     (if clock r - start_t s < duration_sec
      then (if m s then s\<lparr>pc := InNext GenNew\<rparr> else s\<lparr>pc := InitSensor\<rparr>)
      else s\<lparr>pc := Finalize\<rparr>)"
| "worker_step hp duration_sec r s InitSensor =
     (case init_sensor r of
        Inl e \<Rightarrow> on_exception e s
      | Inr u \<Rightarrow> s\<lparr>m := True, pc := InNext GenNew\<rparr>)"
| "worker_step hp duration_sec r s (InNext g) =
     (case collect_step need_samples step_samples r g of
        Raise e \<Rightarrow> on_exception e s
      | Running g' \<Rightarrow> s\<lparr>pc := InNext g'\<rparr>
      | Yield g' \<Rightarrow> s\<lparr>pc := InnerTest g'\<rparr>)"
| "worker_step hp duration_sec r s (InnerTest g) =
     (if clock r - start_t s < duration_sec
      then (process_window hp (window_of g) s)\<lparr>pc := InNext g\<rparr>
      else s\<lparr>pc := OuterTest\<rparr>)"
| "worker_step hp duration_sec r s Finalize = finalize s"
| "worker_step hp duration_sec r s Done = s"

text \<open>
  One turn of \<^verbatim>\<open>dbg_iter\<close>: \<^verbatim>\<open>q.get()\<close> waits on an empty queue (nothing changes),
  the end marker leaves the loop, a line is yielded.
\<close>

definition consumer_step :: "session \<Rightarrow> session" where
  "consumer_step s =
     (if ended s then s
      else (case q s of
              [] \<Rightarrow> s
            | None # rest \<Rightarrow> s\<lparr>q := rest, ended := True\<rparr>
            | Some msg # rest \<Rightarrow> s\<lparr>q := rest, lines := lines s @ [msg]\<rparr>))"

text \<open>
  The two threads interleave: an event is the worker's next call with the environment's
  answer, or one turn of the consumer.
\<close>

datatype event = Worker response | Consumer

fun session_step :: "estimator \<Rightarrow> real \<Rightarrow> event \<Rightarrow> session \<Rightarrow> session" where
  "session_step hp duration_sec (Worker r) s = worker_step hp duration_sec r s (pc s)"
| "session_step hp duration_sec Consumer s = consumer_step s"

fun run :: "estimator \<Rightarrow> real \<Rightarrow> event list \<Rightarrow> session \<Rightarrow> session" where
  "run hp duration_sec [] s = s"
| "run hp duration_sec (ev # evs) s = run hp duration_sec evs (session_step hp duration_sec ev s)"

text \<open>
  \<^verbatim>\<open>get_hr\<close> starts the worker; its two results read the session: \<^verbatim>\<open>wait_avg\<close> returns
  once the event is set (\<open>None\<close>: still waiting), the iterator has yielded \<open>lines\<close>.
\<close>

definition get_hr :: "estimator \<Rightarrow> real \<Rightarrow> event list \<Rightarrow> session" where
  "get_hr hp duration_sec evs = run hp duration_sec evs session0"

definition wait_avg :: "session \<Rightarrow> int option option" where
  "wait_avg s = (if done_flag s then Some (avg s) else None)"

section \<open>Combined API\<close>

text \<open>
  The text an f-string gives a value; the text of a float is the parameter \<open>fmt\<close>
  (\<^verbatim>\<open>repr\<close> of a double).
\<close>

fun py_str :: "(real \<Rightarrow> string) \<Rightarrow> pyval \<Rightarrow> string" where
  "py_str fmt PNone = ''None''"
| "py_str fmt (PBool b) = (if b then ''True'' else ''False'')"
| "py_str fmt (PInt i) = str_int i"
| "py_str fmt (PFloat x) = fmt x"
| "py_str fmt (PStr s) = s"

text \<open>
  What the caller of \<^verbatim>\<open>get_vitals\<close> holds: the value of the final-result accessor
  (\<open>None\<close>: it is still waiting) and the lines the live iterator has yielded. A turn
  of the consumer is a turn of the outer iterator: in the error case its first turn yields
  the error line, and only the later ones reach the queue of the heart-rate session.
\<close>

record vitals =
  final :: "pydict option"
  live :: "string list"

definition get_vitals ::
  "w1_env \<Rightarrow> (real \<Rightarrow> string) \<Rightarrow> estimator \<Rightarrow> real \<Rightarrow> string \<Rightarrow> event list \<Rightarrow> vitals" where
  "get_vitals env fmt hp duration_sec scale evs =
     (let t = read_temp env scale ''nearest''
      in if \<not> truthy (dict_get t ''ok'') then
           (let hr = get_hr hp duration_sec (remove1 Consumer evs)
            in \<lparr>final = Some [(''ok'', PBool False), (''error'', dict_get t ''error'')],
                live = (if Consumer \<in> set evs
                        then (''TEMP ERROR: '' @ py_str fmt (dict_get t ''error'')) # lines hr
                        else [])\<rparr>)
         else
           (let temp_key = (if map_of t ''tempF'' \<noteq> None then ''tempF'' else ''tempC'');
                temp_val = dict_get t temp_key;
                hr = get_hr hp duration_sec evs
            in \<lparr>final = (case wait_avg hr of
                            None \<Rightarrow> None
                          | Some a \<Rightarrow> Some [(''ok'', PBool True),
                                            (''avg_hr'', (case a of None \<Rightarrow> PNone | Some n \<Rightarrow> PInt n)),
                                            (temp_key, temp_val)]),
                live = map (\<lambda>line. str_upper temp_key @ '' '' @ py_str fmt temp_val @ '' | '' @ line)
                         (lines hr)\<rparr>))"

section \<open>Example environments\<close>

text \<open>
  A sensor whose first fill times out with 60 samples and which then delivers 900 samples
  per read, an estimator that answers 60 for a short window and 80 for a full one, and a
  session of 60 seconds with three windows.
\<close>

definition demo_hp :: estimator where
  "demo_hp sig fs = HpMeasures (Some (Finite (if length sig < 800 then 60 else 80)))"

definition demo_resp :: "real \<Rightarrow> nat \<Rightarrow> response" where
  "demo_resp t n = \<lparr>clock = t, sensor_new = None,
                    sensor_read = Inr (replicate n 1, replicate n 1)\<rparr>"

definition demo_events :: "event list" where
  "demo_events =
     [Worker (demo_resp 0 60), Worker (demo_resp 0 60), Worker (demo_resp 0 60),
      Worker (demo_resp 0 60), Worker (demo_resp 0 60),
      Worker (demo_resp 31 900), Worker (demo_resp 31 900), Worker (demo_resp 31 900),
      Worker (demo_resp 31 900), Worker (demo_resp 31 900), Worker (demo_resp 31 900),
      Worker (demo_resp 31 900), Consumer, Consumer,
      Worker (demo_resp 60 900), Worker (demo_resp 60 900), Worker (demo_resp 60 900),
      Consumer, Consumer, Consumer]"

text \<open>A sensor with no samples ready.\<close>

definition idle_resp :: "real \<Rightarrow> response" where
  "idle_resp t = \<lparr>clock = t, sensor_new = None, sensor_read = Inr ([], [])\<rparr>"

text \<open>The same session, cut short by I/O faults after its second window.\<close>

definition fault_resp :: response where
  "fault_resp = \<lparr>clock = 31, sensor_new = Some (OSError ''[Errno 121] Remote I/O error''),
                  sensor_read = Inl (OSError ''[Errno 121] Remote I/O error'')\<rparr>"

definition fault_events :: "event list" where
  "fault_events =
     [Worker (demo_resp 0 60), Worker (demo_resp 0 60), Worker (demo_resp 0 60),
      Worker (demo_resp 0 60), Worker (demo_resp 0 60),
      Worker (demo_resp 31 900), Worker (demo_resp 31 900),
      Worker (demo_resp 31 900), Worker (demo_resp 31 900),
      Worker fault_resp, Worker fault_resp, Worker fault_resp, Worker fault_resp,
      Worker fault_resp, Worker fault_resp, Worker fault_resp]"

text \<open>The same events without the last fault.\<close>

definition fault_prefix :: "event list" where
  "fault_prefix =
     [Worker (demo_resp 0 60), Worker (demo_resp 0 60), Worker (demo_resp 0 60),
      Worker (demo_resp 0 60), Worker (demo_resp 0 60),
      Worker (demo_resp 31 900), Worker (demo_resp 31 900),
      Worker (demo_resp 31 900), Worker (demo_resp 31 900),
      Worker fault_resp, Worker fault_resp, Worker fault_resp, Worker fault_resp,
      Worker fault_resp, Worker fault_resp]"

text \<open>
  A session of 20 seconds: the sensor's construction fails three times at once, then
  succeeds; the initial fill gets no samples, and at 25 seconds a read fails.
\<close>

definition fault_at :: "real \<Rightarrow> response" where
  "fault_at t = \<lparr>clock = t, sensor_new = Some (OSError ''[Errno 121] Remote I/O error''),
                  sensor_read = Inl (OSError ''[Errno 121] Remote I/O error'')\<rparr>"

definition late_prefix :: "event list" where
  "late_prefix =
     [Worker (fault_at 0), Worker (fault_at 0), Worker (fault_at 0), Worker (fault_at 0),
      Worker (fault_at 0), Worker (fault_at 0), Worker (fault_at 0),
      Worker (idle_resp 1), Worker (idle_resp 1), Worker (idle_resp 1),
      Worker (idle_resp 5), Worker (idle_resp 10)]"

text \<open>
  An estimator that answers 20.1 for the short first window and 23.3 afterwards, in a
  session of 60 seconds with two windows.
\<close>

definition drift_hp :: estimator where
  "drift_hp sig fs = HpMeasures (Some (Finite (if length sig < 800 then 201 / 10 else 233 / 10)))"

definition drift_events :: "event list" where
  "drift_events =
     [Worker (demo_resp 0 60), Worker (demo_resp 0 60), Worker (demo_resp 0 60),
      Worker (demo_resp 0 60), Worker (demo_resp 0 60),
      Worker (demo_resp 31 900), Worker (demo_resp 31 900),
      Worker (demo_resp 31 900), Worker (demo_resp 31 900), Worker (demo_resp 31 900),
      Worker (demo_resp 60 900), Worker (demo_resp 60 900), Worker (demo_resp 60 900)]"

text \<open>A thermometer whose first read fails the CRC, and a system with no thermometer.\<close>

definition demo_w1 :: w1_env where
  "demo_w1 = \<lparr>devices = [''/sys/bus/w1/devices/28-00000a1b2c3d''],
              raw_lines = (\<lambda>devfile k.
                if devfile = ''/sys/bus/w1/devices/28-00000a1b2c3d/w1_slave'' then
                  (if k = 0 then Inr [''72 01 4b 46 7f ff 0e 10 57 : crc=57 NO'',
                                      ''72 01 4b 46 7f ff 0e 10 57 t=85000'']
                   else Inr [''72 01 4b 46 7f ff 0e 10 57 : crc=57 YES'',
                             ''72 01 4b 46 7f ff 0e 10 57 t=23125''])
                else Inl (FileNotFoundError ''No such file or directory''))\<rparr>"

definition no_w1 :: w1_env where
  "no_w1 = \<lparr>devices = [], raw_lines = (\<lambda>devfile k. Inl (FileNotFoundError ''No such file or directory''))\<rparr>"

text \<open>
  A sensor under no finger: full reads of a flat signal, on which the estimator raises;
  six calls bring the worker to its first window, each further pair of calls is one window,
  the clock passes the deadline, and the consumer takes \<open>k\<close> turns afterwards.
\<close>

definition flat_hp :: estimator where
  "flat_hp sig fs = HpRaises"

definition flat_resp :: "real \<Rightarrow> response" where
  "flat_resp t = \<lparr>clock = t, sensor_new = None,
                   sensor_read = Inr (replicate 800 0, replicate 800 0)\<rparr>"

definition full_events :: "nat \<Rightarrow> event list" where
  "full_events k =
     [Worker (flat_resp 0), Worker (flat_resp 0), Worker (flat_resp 0),
      Worker (flat_resp 0), Worker (flat_resp 0), Worker (flat_resp 0)]
     @ concat (replicate 256 [Worker (flat_resp 0), Worker (flat_resp 0)])
     @ [Worker (flat_resp 300), Worker (flat_resp 300), Worker (flat_resp 300)]
     @ replicate k Consumer"

text \<open>A value between 20 and 220 times a count: a sum of that many accepted values.\<close>

definition sum_of :: "nat \<Rightarrow> real \<Rightarrow> bool" where
  "sum_of k v = (20 * real k \<le> v \<and> v \<le> 220 * real k)"

section \<open>Auxiliary facts\<close>

lemma py_round_nearest: "\<bar>real_of_int (py_round x) - x\<bar> \<le> 1 / 2"
  unfolding py_round_def Let_def by (auto simp: abs_le_iff)

lemma py_round_lower: "real_of_int a \<le> x \<Longrightarrow> a \<le> py_round x"
proof -
  assume "real_of_int a \<le> x"
  then have "a \<le> \<lfloor>x\<rfloor>" by (simp add: le_floor_iff)
  then show ?thesis unfolding py_round_def Let_def by auto
qed

lemma py_round_upper: "x \<le> real_of_int b \<Longrightarrow> py_round x \<le> b"
proof -
  assume le: "x \<le> real_of_int b"
  then have f: "\<lfloor>x\<rfloor> \<le> b" by (simp add: floor_le_iff)
  show ?thesis
  proof (cases "\<lfloor>x\<rfloor> = b")
    case True
    then have "x - real_of_int \<lfloor>x\<rfloor> \<le> 0" using le by simp
    then show ?thesis using True unfolding py_round_def Let_def by auto
  next
    case False
    then have "\<lfloor>x\<rfloor> + 1 \<le> b" using f by simp
    then show ?thesis unfolding py_round_def Let_def by auto
  qed
qed

lemma py_round_of_int: "py_round (real_of_int k) = k"
  by (simp add: py_round_def)

lemma py_round_mono: "x \<le> y \<Longrightarrow> py_round x \<le> py_round y"
proof -
  assume xy: "x \<le> y"
  have fx: "\<lfloor>x\<rfloor> \<le> \<lfloor>y\<rfloor>" using xy by (rule floor_mono)
  show ?thesis
  proof (cases "\<lfloor>x\<rfloor> = \<lfloor>y\<rfloor>")
    case True
    then have "x - real_of_int \<lfloor>x\<rfloor> \<le> y - real_of_int \<lfloor>y\<rfloor>" using xy by simp
    then show ?thesis using True unfolding py_round_def Let_def by auto
  next
    case False
    then have "\<lfloor>x\<rfloor> + 1 \<le> \<lfloor>y\<rfloor>" using fx by simp
    moreover have "py_round x \<le> \<lfloor>x\<rfloor> + 1" unfolding py_round_def Let_def by auto
    moreover have "\<lfloor>y\<rfloor> \<le> py_round y" unfolding py_round_def Let_def by auto
    ultimately show ?thesis by linarith
  qed
qed

lemma py_round_minus: "py_round (- x) = - py_round x"
proof (cases "x = real_of_int \<lfloor>x\<rfloor>")
  case True
  then have "py_round x = \<lfloor>x\<rfloor>" using py_round_of_int [of "\<lfloor>x\<rfloor>"] by simp
  moreover have "- x = real_of_int (- \<lfloor>x\<rfloor>)" using True by simp
  then have "py_round (- x) = - \<lfloor>x\<rfloor>" using py_round_of_int [of "- \<lfloor>x\<rfloor>"] by simp
  ultimately show ?thesis by simp
next
  case False
  have "real_of_int \<lfloor>x\<rfloor> \<le> x" by (rule of_int_floor_le)
  then have lt: "real_of_int \<lfloor>x\<rfloor> < x" using False by argo
  have ub: "x < real_of_int \<lfloor>x\<rfloor> + 1" by linarith
  have f: "\<lfloor>- x\<rfloor> = - \<lfloor>x\<rfloor> - 1"
  proof (rule floor_unique)
    show "real_of_int (- \<lfloor>x\<rfloor> - 1) \<le> - x" by (simp, linarith)
    show "- x < real_of_int (- \<lfloor>x\<rfloor> - 1) + 1" using lt by simp
  qed
  show ?thesis
    unfolding py_round_def Let_def f using lt by (auto simp: algebra_simps)
qed


lemma two_powr_pos: "0 < (2::real) powr a"
  by simp

lemma fl_eval:
  assumes "2 powr real_of_int k \<le> \<bar>x\<bar>" "\<bar>x\<bar> < 2 powr real_of_int (k + 1)" "- 1022 \<le> k"
  shows "fl x = real_of_int (py_round (x / 2 powr real_of_int (k - 52)))
                * 2 powr real_of_int (k - 52)"
proof -
  have pos: "0 < \<bar>x\<bar>" using assms(1) two_powr_pos [of "real_of_int k"] by linarith
  then have nz: "x \<noteq> 0" by auto
  have "\<lfloor>log 2 \<bar>x\<bar>\<rfloor> = k"
    using floor_log_eq_powr_iff [of "\<bar>x\<bar>" 2 k] pos assms(1,2) by simp
  then have "ulp_exp x = k - 52" using assms(3) by (simp add: ulp_exp_def)
  then show ?thesis using nz by (simp add: fl_def)
qed

lemma fl_minus: "fl (- x) = - fl x"
  by (simp add: fl_def ulp_exp_def py_round_minus)

lemma fl_nonneg: "0 \<le> x \<Longrightarrow> 0 \<le> fl x"
proof -
  assume "0 \<le> x"
  then have "0 \<le> x / 2 powr real_of_int (ulp_exp x)" by simp
  then have "0 \<le> py_round (x / 2 powr real_of_int (ulp_exp x))"
    using py_round_lower [of 0] by simp
  then show ?thesis by (simp add: fl_def)
qed

lemma ulp_exp_mono:
  assumes "0 < x" "x \<le> y"
  shows "ulp_exp x \<le> ulp_exp y"
proof -
  have "log 2 \<bar>x\<bar> \<le> log 2 \<bar>y\<bar>" using assms by (simp add: log_mono)
  then have "\<lfloor>log 2 \<bar>x\<bar>\<rfloor> \<le> \<lfloor>log 2 \<bar>y\<bar>\<rfloor>" by (rule floor_mono)
  then show ?thesis by (simp add: ulp_exp_def)
qed

text \<open>Below the next power of two, and, in the normal range, above the last one.\<close>

lemma ulp_exp_upper:
  assumes "0 < x"
  shows "x < 2 powr real_of_int (ulp_exp x + 53)"
proof -
  have "log 2 x < real_of_int (\<lfloor>log 2 x\<rfloor> + 1)" by linarith
  also have "\<dots> \<le> real_of_int (ulp_exp x + 53)"
    using assms by (simp add: ulp_exp_def)
  finally have "log 2 x < real_of_int (ulp_exp x + 53)" .
  then show ?thesis using assms by (simp add: log_less_iff)
qed

lemma ulp_exp_lower:
  assumes "0 < x" "- 1074 < ulp_exp x"
  shows "2 powr real_of_int (ulp_exp x + 52) \<le> x"
proof -
  have "ulp_exp x + 52 = \<lfloor>log 2 x\<rfloor>" using assms by (simp add: ulp_exp_def max_def split: if_splits)
  then have "real_of_int (ulp_exp x + 52) \<le> log 2 x" by simp
  then show ?thesis using assms(1) by (simp add: powr_le_iff)
qed

lemma fl_upper:
  assumes "0 < x"
  shows "fl x \<le> 2 powr real_of_int (ulp_exp x + 53)"
proof -
  define u where "u = 2 powr real_of_int (ulp_exp x)"
  define n where "n = py_round (x / u)"
  have u: "0 < u" by (simp add: u_def)
  have p: "2 powr real_of_int (ulp_exp x + 53) = real_of_int (2 ^ 53) * u"
    by (simp add: u_def powr_add)
  have "x < real_of_int (2 ^ 53) * u" using ulp_exp_upper [OF assms] unfolding p .
  then have "x / u \<le> real_of_int (2 ^ 53)" using u by (simp add: pos_divide_le_eq)
  then have "n \<le> 2 ^ 53" unfolding n_def by (rule py_round_upper)
  then have "real_of_int n \<le> real_of_int (2 ^ 53)" by linarith
  then have "real_of_int n * u \<le> real_of_int (2 ^ 53) * u"
    using u by (rule mult_right_mono [OF _ less_imp_le])
  moreover have "fl x = real_of_int n * u" using assms by (simp add: fl_def n_def u_def)
  ultimately show ?thesis unfolding p by simp
qed

lemma fl_lower:
  assumes "0 < x" "- 1074 < ulp_exp x"
  shows "2 powr real_of_int (ulp_exp x + 52) \<le> fl x"
proof -
  define u where "u = 2 powr real_of_int (ulp_exp x)"
  define n where "n = py_round (x / u)"
  have u: "0 < u" by (simp add: u_def)
  have p: "2 powr real_of_int (ulp_exp x + 52) = real_of_int (2 ^ 52) * u"
    by (simp add: u_def powr_add)
  have "real_of_int (2 ^ 52) * u \<le> x" using ulp_exp_lower [OF assms] unfolding p .
  then have "real_of_int (2 ^ 52) \<le> x / u" using u by (simp add: pos_le_divide_eq)
  then have "2 ^ 52 \<le> n" unfolding n_def by (rule py_round_lower)
  then have "real_of_int (2 ^ 52) \<le> real_of_int n" by linarith
  then have "real_of_int (2 ^ 52) * u \<le> real_of_int n * u"
    using u by (rule mult_right_mono [OF _ less_imp_le])
  moreover have "fl x = real_of_int n * u" using assms by (simp add: fl_def n_def u_def)
  ultimately show ?thesis unfolding p by simp
qed

lemma fl_mono_pos:
  assumes "0 < x" "x \<le> y"
  shows "fl x \<le> fl y"
proof (cases "ulp_exp x = ulp_exp y")
  case True
  let ?u = "2 powr real_of_int (ulp_exp y)"
  have "x / ?u \<le> y / ?u" using assms by (simp add: divide_right_mono)
  then have "py_round (x / ?u) \<le> py_round (y / ?u)" by (rule py_round_mono)
  then have "real_of_int (py_round (x / ?u)) * ?u \<le> real_of_int (py_round (y / ?u)) * ?u"
    by (simp add: mult_right_mono)
  then show ?thesis using assms True by (simp add: fl_def)
next
  case False
  then have lt: "ulp_exp x < ulp_exp y" using ulp_exp_mono [OF assms] by simp
  have "- 1074 \<le> ulp_exp x" by (simp add: ulp_exp_def)
  then have n: "- 1074 < ulp_exp y" using lt by simp
  have y: "0 < y" using assms by simp
  have "fl x \<le> 2 powr real_of_int (ulp_exp x + 53)" using fl_upper [OF assms(1)] .
  also have "\<dots> \<le> 2 powr real_of_int (ulp_exp y + 52)" using lt by simp
  also have "\<dots> \<le> fl y" using fl_lower [OF y n] .
  finally show ?thesis .
qed

lemma fl_mono: "x \<le> y \<Longrightarrow> fl x \<le> fl y"
proof -
  assume xy: "x \<le> y"
  consider "0 < x" | "x \<le> 0" "0 \<le> y" | "y < 0" by linarith
  then show ?thesis
  proof cases
    case 1
    then show ?thesis using fl_mono_pos xy by simp
  next
    case 2
    then have "fl x \<le> 0" using fl_nonneg [of "- x"] by (simp add: fl_minus)
    moreover have "0 \<le> fl y" using 2 fl_nonneg by simp
    ultimately show ?thesis by simp
  next
    case 3
    then have "fl (- y) \<le> fl (- x)" using fl_mono_pos [of "- y" "- x"] xy by simp
    then show ?thesis by (simp add: fl_minus)
  qed
qed

text \<open>Integers up to \<open>2 ^ 53\<close> are doubles.\<close>

lemma fl_of_int:
  assumes "\<bar>z\<bar> < 2 ^ 53"
  shows "fl (real_of_int z) = real_of_int z"
proof (cases "z = 0")
  case True
  then show ?thesis by (simp add: fl_def)
next
  case False
  define x where "x = real_of_int z"
  have ax: "0 < \<bar>x\<bar>" using False by (simp add: x_def)
  have "\<bar>x\<bar> = real_of_int \<bar>z\<bar>" by (simp add: x_def)
  also have "\<dots> < real_of_int (2 ^ 53)" using assms by linarith
  finally have "\<bar>x\<bar> < 2 powr 53" by simp
  then have "log 2 \<bar>x\<bar> < 53" using ax by (simp add: log_less_iff)
  then have "\<lfloor>log 2 \<bar>x\<bar>\<rfloor> < 53" by (simp add: floor_less_iff)
  then have "ulp_exp x \<le> 0" by (simp add: ulp_exp_def)
  then obtain n where n: "ulp_exp x = - int n"
    by (metis neg_0_le_iff_le nonneg_int_cases minus_minus)
  have u: "2 powr real_of_int (ulp_exp x) = 1 / 2 ^ n"
    unfolding n by (simp add: powr_minus_divide powr_realpow)
  have "x / 2 powr real_of_int (ulp_exp x) = real_of_int (z * 2 ^ n)"
    unfolding u by (simp add: x_def)
  then have "py_round (x / 2 powr real_of_int (ulp_exp x)) = z * 2 ^ n"
    by (simp only: py_round_of_int)
  then have "fl x = real_of_int (z * 2 ^ n) * (1 / 2 ^ n)"
    using ax u by (simp add: fl_def)
  then show ?thesis by (simp add: x_def)
qed

text \<open>Evaluation in a binade at or above one, and in a binade below one.\<close>

lemma fl_binade:
  assumes "2 ^ n \<le> \<bar>x\<bar>" "\<bar>x\<bar> < 2 * 2 ^ n" "n \<le> 52"
  shows "fl x = real_of_int (py_round (x * 2 ^ (52 - n))) / 2 ^ (52 - n)"
proof -
  have a: "2 powr real_of_int (int n) \<le> \<bar>x\<bar>" using assms(1) by (simp add: powr_realpow)
  have "(2::real) powr real_of_int (int n + 1) = 2 * 2 ^ n"
    by (simp add: powr_add powr_realpow)
  then have b: "\<bar>x\<bar> < 2 powr real_of_int (int n + 1)" using assms(2) by simp
  have "real_of_int (int n - 52) = - real (52 - n)" using assms(3) by simp
  then have "(2::real) powr real_of_int (int n - 52) = 2 powr (- real (52 - n))"
    by (rule arg_cong)
  also have "\<dots> = 1 / 2 ^ (52 - n)" by (simp add: powr_minus_divide powr_realpow)
  finally have u: "2 powr real_of_int (int n - 52) = 1 / 2 ^ (52 - n)" .
  show ?thesis using fl_eval [OF a b] unfolding u by simp
qed

lemma fl_binade_small:
  assumes "1 \<le> \<bar>x\<bar> * 2 ^ n" "\<bar>x\<bar> * 2 ^ n < 2" "n \<le> 1022"
  shows "fl x = real_of_int (py_round (x * 2 ^ (52 + n))) / 2 ^ (52 + n)"
proof -
  have p: "2 powr real_of_int (- int n) = 1 / 2 ^ n"
    by (simp add: powr_minus_divide powr_realpow)
  have a: "2 powr real_of_int (- int n) \<le> \<bar>x\<bar>"
    unfolding p using assms(1) by (simp add: pos_divide_le_eq)
  have "real_of_int (- int n + 1) = - real n + 1" by simp
  then have "(2::real) powr real_of_int (- int n + 1) = 2 powr (- real n + 1)"
    by (rule arg_cong)
  also have "\<dots> = 2 powr (- real n) * 2 powr 1" by (rule powr_add)
  also have "\<dots> = 2 / 2 ^ n" by (simp add: powr_minus_divide powr_realpow)
  finally have "(2::real) powr real_of_int (- int n + 1) = 2 / 2 ^ n" .
  then have b: "\<bar>x\<bar> < 2 powr real_of_int (- int n + 1)"
    using assms(2) by (simp add: pos_less_divide_eq)
  have "real_of_int (- int n - 52) = - real (52 + n)" by simp
  then have "(2::real) powr real_of_int (- int n - 52) = 2 powr (- real (52 + n))"
    by (rule arg_cong)
  also have "\<dots> = 1 / 2 ^ (52 + n)" by (simp only: powr_minus_divide powr_realpow [OF zero_less_numeral])
  finally have u: "2 powr real_of_int (- int n - 52) = 1 / 2 ^ (52 + n)" .
  show ?thesis using fl_eval [OF a b] assms(3) unfolding u by simp
qed

lemmas fl_evals =
  fl_binade [where n = 0] fl_binade [where n = 1] fl_binade [where n = 2]
  fl_binade [where n = 3] fl_binade [where n = 4] fl_binade [where n = 5]
  fl_binade [where n = 6] fl_binade [where n = 7] fl_binade [where n = 8]
  fl_binade_small [where n = 1] fl_binade_small [where n = 2]

lemma pairwise_sum_short: "length xs < 8 \<Longrightarrow> pairwise_sum xs = foldl fadd 0 xs"
  by (simp add: pairwise_sum.simps)

lemmas float_simps = fadd_def fsub_def fmul_def fdiv_def pairwise_sum_short fl_evals

lemma fl_of_nat: "k < 2 ^ 53 \<Longrightarrow> fl (real k) = real k"
  using fl_of_int [of "int k"] by simp

lemma fadd_sum_of:
  assumes "sum_of j a" "sum_of k b" "j + k \<le> 2 ^ 40"
  shows "sum_of (j + k) (fadd a b)"
proof -
  have lo: "real (20 * (j + k)) \<le> a + b" and hi: "a + b \<le> real (220 * (j + k))"
    using assms(1,2) by (simp_all add: sum_of_def algebra_simps)
  have "220 * (j + k) \<le> 220 * 2 ^ 40" using assms(3) by simp
  also have "\<dots> < (2::nat) ^ 53" by simp
  finally have h: "220 * (j + k) < 2 ^ 53" .
  then have l: "20 * (j + k) < 2 ^ 53" by simp
  have "fl (real (20 * (j + k))) \<le> fl (a + b)" using lo by (rule fl_mono)
  moreover have "fl (a + b) \<le> fl (real (220 * (j + k)))" using hi by (rule fl_mono)
  ultimately show ?thesis
    unfolding fl_of_nat [OF h] fl_of_nat [OF l] by (simp add: sum_of_def fadd_def)
qed

lemma foldl_sum_of:
  "sum_of j acc \<Longrightarrow> \<forall>x\<in>set xs. sum_of 1 x \<Longrightarrow> j + length xs \<le> 2 ^ 40 \<Longrightarrow>
   sum_of (j + length xs) (foldl fadd acc xs)"
proof (induction xs arbitrary: acc j)
  case Nil
  then show ?case by simp
next
  case (Cons x xs)
  have "sum_of (j + 1) (fadd acc x)"
    using fadd_sum_of [of j acc 1 x] Cons.prems by simp
  then have "sum_of (j + 1 + length xs) (foldl fadd (fadd acc x) xs)"
    using Cons.IH [of "j + 1" "fadd acc x"] Cons.prems by simp
  then show ?case by (simp add: add.assoc)
qed

lemma acc8_sum_of:
  "length r = 8 \<Longrightarrow> \<forall>v\<in>set r. sum_of t v \<Longrightarrow> \<forall>x\<in>set xs. sum_of 1 x \<Longrightarrow>
   t + length xs \<le> 2 ^ 40 \<Longrightarrow>
   length (acc8 r xs) = 8 \<and> (\<forall>v\<in>set (acc8 r xs). sum_of (t + length xs div 8) v)"
proof (induction r xs arbitrary: t rule: acc8.induct)
  case (1 r x0 x1 x2 x3 x4 x5 x6 x7 xs)
  let ?g = "[x0, x1, x2, x3, x4, x5, x6, x7]"
  let ?r = "map2 fadd r ?g"
  have len: "length ?r = 8" using "1.prems"(1) by simp
  have w: "\<forall>v\<in>set ?r. sum_of (t + 1) v"
  proof
    fix v assume "v \<in> set ?r"
    then obtain a b where ab: "(a, b) \<in> set (zip r ?g)" and v: "v = fadd a b" by auto
    have "a \<in> set r" using ab by (rule set_zip_leftD)
    moreover have "b \<in> set ?g" using ab by (rule set_zip_rightD)
    ultimately have "sum_of t a" "sum_of 1 b" using "1.prems"(2,3) by auto
    then show "sum_of (t + 1) v" unfolding v using fadd_sum_of [of t a 1 b] "1.prems"(4) by simp
  qed
  have "length (acc8 ?r xs) = 8 \<and> (\<forall>v\<in>set (acc8 ?r xs). sum_of (t + 1 + length xs div 8) v)"
    using "1.IH" [OF len w] "1.prems"(3,4) by simp
  then show ?case by simp
qed simp_all


lemma block_sum_of:
  assumes "8 \<le> length xs" "length xs \<le> 2 ^ 40" "\<forall>x\<in>set xs. sum_of 1 x"
  shows "sum_of (length xs) (block_sum xs)"
proof -
  let ?n = "length xs"
  define r where "r = acc8 (take 8 xs) (drop 8 xs)"
  define t where "t = ?n div 8"
  have l8: "length (take 8 xs) = 8" using assms(1) by simp
  have w0: "\<forall>v\<in>set (take 8 xs). sum_of 1 v" using assms(3) by (auto dest: in_set_takeD)
  have w1: "\<forall>x\<in>set (drop 8 xs). sum_of 1 x" using assms(3) by (auto dest: in_set_dropD)
  have "1 + length (drop 8 xs) \<le> 2 ^ 40" using assms(1,2) by simp
  then have "length r = 8 \<and> (\<forall>v\<in>set r. sum_of (1 + length (drop 8 xs) div 8) v)"
    unfolding r_def using acc8_sum_of [OF l8 w0 w1] by blast
  moreover have "1 + length (drop 8 xs) div 8 = t" using assms(1) by (simp add: t_def le_div_geq)
  ultimately have len: "length r = 8" and w: "\<forall>v\<in>set r. sum_of t v" by simp_all
  have el: "\<And>i. i < 8 \<Longrightarrow> sum_of t (r ! i)" using len w by simp
  have t8: "8 * t \<le> ?n" by (simp add: t_def)
  then have b: "8 * t \<le> 2 ^ 40" using assms(2) by simp
  have p2: "sum_of (t + t) (fadd (r ! i) (r ! j))" if "i < 8" "j < 8" for i j
    using fadd_sum_of [OF el [OF that(1)] el [OF that(2)]] b by simp
  have p4: "sum_of ((t + t) + (t + t)) (fadd (fadd (r ! i) (r ! j)) (fadd (r ! k) (r ! l)))"
    if "i < 8" "j < 8" "k < 8" "l < 8" for i j k l
    using fadd_sum_of [OF p2 [OF that(1,2)] p2 [OF that(3,4)]] b by simp
  have "sum_of (((t + t) + (t + t)) + ((t + t) + (t + t)))
      (fadd (fadd (fadd (r ! 0) (r ! 1)) (fadd (r ! 2) (r ! 3)))
            (fadd (fadd (r ! 4) (r ! 5)) (fadd (r ! 6) (r ! 7))))"
    using fadd_sum_of [OF p4 [of 0 1 2 3] p4 [of 4 5 6 7]] b by simp
  then have res: "sum_of (8 * t)
      (fadd (fadd (fadd (r ! 0) (r ! 1)) (fadd (r ! 2) (r ! 3)))
            (fadd (fadd (r ! 4) (r ! 5)) (fadd (r ! 6) (r ! 7))))"
    by (simp add: mult_2 [symmetric] algebra_simps)
  have rest: "\<forall>x\<in>set (drop (?n - ?n mod 8) xs). sum_of 1 x"
    using assms(3) by (auto dest: in_set_dropD)
  have lr: "length (drop (?n - ?n mod 8) xs) = ?n mod 8" by simp
  have tot: "8 * t + ?n mod 8 = ?n" by (simp add: t_def)
  have bd: "8 * t + length (drop (?n - ?n mod 8) xs) \<le> 2 ^ 40"
    using lr tot assms(2) by simp
  have "sum_of (8 * t + length (drop (?n - ?n mod 8) xs))
      (foldl fadd (fadd (fadd (fadd (r ! 0) (r ! 1)) (fadd (r ! 2) (r ! 3)))
            (fadd (fadd (r ! 4) (r ! 5)) (fadd (r ! 6) (r ! 7)))) (drop (?n - ?n mod 8) xs))"
    using foldl_sum_of [OF res rest bd] .
  then have "sum_of ?n
      (foldl fadd (fadd (fadd (fadd (r ! 0) (r ! 1)) (fadd (r ! 2) (r ! 3)))
            (fadd (fadd (r ! 4) (r ! 5)) (fadd (r ! 6) (r ! 7)))) (drop (?n - ?n mod 8) xs))"
    unfolding lr tot .
  then show ?thesis by (simp add: block_sum_def r_def Let_def)
qed

lemma pairwise_sum_of:
  "length xs \<le> 2 ^ 40 \<Longrightarrow> \<forall>x\<in>set xs. sum_of 1 x \<Longrightarrow> sum_of (length xs) (pairwise_sum xs)"
proof (induction xs rule: pairwise_sum.induct)
  case (1 xs)
  let ?n = "length xs"
  let ?n2 = "?n div 2 - ?n div 2 mod 8"
  show ?case
  proof (cases "?n < 8")
    case True
    have "sum_of 0 0" by (simp add: sum_of_def)
    then have "sum_of (0 + ?n) (foldl fadd 0 xs)"
      using "1.prems" by (intro foldl_sum_of) simp_all
    then show ?thesis using True by (simp add: pairwise_sum.simps)
  next
    case False
    show ?thesis
    proof (cases "?n \<le> 128")
      case True
      then show ?thesis using False "1.prems" block_sum_of [of xs]
        by (simp add: pairwise_sum.simps)
    next
      case big: False
      have le: "?n2 \<le> ?n" by (simp add: le_diff_conv trans_le_add1)
      have la: "length (take ?n2 xs) \<le> 2 ^ 40" using "1.prems"(1) by simp
      have wa: "\<forall>x\<in>set (take ?n2 xs). sum_of 1 x"
        using "1.prems"(2) by (auto dest: in_set_takeD)
      have a: "sum_of (length (take ?n2 xs)) (pairwise_sum (take ?n2 xs))"
        using "1.IH"(1) [OF False big la wa] .
      have lb: "length (drop ?n2 xs) \<le> 2 ^ 40" using "1.prems"(1) by simp
      have wb: "\<forall>x\<in>set (drop ?n2 xs). sum_of 1 x"
        using "1.prems"(2) by (auto dest: in_set_dropD)
      have b: "sum_of (length (drop ?n2 xs)) (pairwise_sum (drop ?n2 xs))"
        using "1.IH"(2) [OF False big lb wb] .
      have "length (take ?n2 xs) + length (drop ?n2 xs) = ?n" using le by simp
      then have "sum_of ?n (fadd (pairwise_sum (take ?n2 xs)) (pairwise_sum (drop ?n2 xs)))"
        using fadd_sum_of [OF a b] "1.prems"(1) by simp
      then show ?thesis using False big by (simp add: pairwise_sum.simps [of xs])
    qed
  qed
qed

lemma fl_20: "fl 20 = 20"
  using fl_of_nat [of 20] by simp

lemma fl_220: "fl 220 = 220"
  using fl_of_nat [of 220] by simp

lemma fl_range: "20 \<le> x \<Longrightarrow> x \<le> 220 \<Longrightarrow> 20 \<le> fl x \<and> fl x \<le> 220"
  using fl_mono [of 20 x] fl_mono [of x 220] by (simp add: fl_20 fl_220)

lemma np_mean_bounds:
  assumes "xs \<noteq> []" "length xs \<le> 2 ^ 40" "\<forall>x\<in>set xs. 20 \<le> x \<and> x \<le> 220"
  shows "20 \<le> np_mean xs \<and> np_mean xs \<le> 220"
proof -
  let ?s = "pairwise_sum (map fl xs)"
  have n: "0 < real (length xs)" using assms(1) by simp
  have "\<forall>x\<in>set (map fl xs). sum_of 1 x"
    using assms(3) fl_range by (auto simp: sum_of_def)
  then have "sum_of (length (map fl xs)) ?s"
    using assms(2) by (intro pairwise_sum_of) simp_all
  then have s: "sum_of (0 + length xs) (fadd 0 ?s)"
    using fadd_sum_of [of 0 0 "length xs" ?s] assms(2) by (simp add: sum_of_def)
  then have "20 \<le> fadd 0 ?s / real (length xs) \<and> fadd 0 ?s / real (length xs) \<le> 220"
    using n by (simp add: sum_of_def pos_le_divide_eq pos_divide_le_eq)
  then show ?thesis unfolding np_mean_def fdiv_def by (intro fl_range) simp_all
qed

lemma smooth_bounds:
  assumes "20 \<le> b" "b \<le> 220" "\<And>p. prev = Some p \<Longrightarrow> 20 \<le> p \<and> p \<le> 220"
  shows "20 \<le> smooth prev b \<and> smooth prev b \<le> 220"
proof (cases prev)
  case None
  then show ?thesis using fl_range [OF assms(1,2)] by (simp add: smooth_def)
next
  case (Some p)
  have fb: "20 \<le> fl b \<and> fl b \<le> 220" using fl_range [OF assms(1,2)] .
  have fp: "20 \<le> fl p \<and> fl p \<le> 220" using fl_range [of p] assms(3) [OF Some] by simp
  have q: "fsub 1 EMA_ALPHA = 3 / 4"
    by (simp add: fsub_def EMA_ALPHA_def fl_binade_small [where n = 1] py_round_def)
  have "fl (real 5) \<le> fl (EMA_ALPHA * fl b)" "fl (EMA_ALPHA * fl b) \<le> fl (real 55)"
    using fb by (auto intro!: fl_mono simp: EMA_ALPHA_def)
  then have x: "5 \<le> fmul EMA_ALPHA (fl b)" "fmul EMA_ALPHA (fl b) \<le> 55"
    using fl_of_nat [of 5] fl_of_nat [of 55] by (simp_all add: fmul_def)
  have "fl (real 15) \<le> fl (3 / 4 * fl p)" "fl (3 / 4 * fl p) \<le> fl (real 165)"
    using fp by (auto intro!: fl_mono)
  then have y: "15 \<le> fmul (3 / 4) (fl p)" "fmul (3 / 4) (fl p) \<le> 165"
    using fl_of_nat [of 15] fl_of_nat [of 165] by (simp_all add: fmul_def)
  have "20 \<le> fl (fmul EMA_ALPHA (fl b) + fmul (3 / 4) (fl p))
      \<and> fl (fmul EMA_ALPHA (fl b) + fmul (3 / 4) (fl p)) \<le> 220"
    using x y by (intro fl_range) simp_all
  then show ?thesis using Some by (simp add: smooth_def q fadd_def)
qed

lemma run_append: "run hp d (xs @ ys) s = run hp d ys (run hp d xs s)"
  by (induction xs arbitrary: s) auto

lemma run_invariant:
  assumes "P s" "\<And>ev s. P s \<Longrightarrow> P (session_step hp d ev s)"
  shows "P (run hp d evs s)"
  using assms(1) by (induction evs arbitrary: s) (auto intro: assms(2))

lemma on_exception_keeps:
  "good_bpms (on_exception e s) = good_bpms s"
  "prev_live (on_exception e s) = prev_live s"
  "avg (on_exception e s) = avg s"
  "done_flag (on_exception e s) = done_flag s"
  "lines (on_exception e s) = lines s"
  "ended (on_exception e s) = ended s"
  "start_t (on_exception e s) = start_t s"
  by (simp_all add: on_exception_def Let_def)

lemma on_exception_pc:
  "pc (on_exception e s) = OuterTest \<or> pc (on_exception e s) = Finalize"
  by (simp add: on_exception_def Let_def)

lemma on_exception_not_Done: "pc (on_exception e s) \<noteq> Done"
  by (simp add: on_exception_def Let_def)

lemma process_window_keeps:
  "avg (process_window hp w s) = avg s"
  "done_flag (process_window hp w s) = done_flag s"
  "lines (process_window hp w s) = lines s"
  "ended (process_window hp w s) = ended s"
  "resets (process_window hp w s) = resets s"
  "pc (process_window hp w s) = pc s"
  "m (process_window hp w s) = m s"
  "start_t (process_window hp w s) = start_t s"
  by (simp_all add: process_window_def Let_def)

lemma try_put_length: "length qu \<le> maxsize \<Longrightarrow> length (try_put qu x) \<le> maxsize"
  by (simp add: try_put_def put_nowait_def)

lemma try_put_full: "length qu = maxsize \<Longrightarrow> try_put qu x = qu"
  by (simp add: try_put_def put_nowait_def)

lemma compute_bpm_Some:
  "fst (compute_bpm hp sig fs) = Some b \<Longrightarrow> 20 \<le> b \<and> b \<le> 220"
  by (auto simp: compute_bpm_def split: hp_result.splits option.splits pyfloat.splits if_splits)

lemma live_tick_range:
  assumes "\<And>b. fst est = Some b \<Longrightarrow> 20 \<le> b \<and> b \<le> 220"
    and "\<forall>x\<in>set good. 20 \<le> x \<and> x \<le> 220"
    and "\<forall>p. prev = Some p \<longrightarrow> 20 \<le> p \<and> p \<le> 220"
  shows "(\<forall>x\<in>set (fst (snd (live_tick est prev good))). 20 \<le> x \<and> x \<le> 220)
       \<and> (\<forall>p. fst (live_tick est prev good) = Some p \<longrightarrow> 20 \<le> p \<and> p \<le> 220)"
proof (cases "fst est")
  case None
  then show ?thesis using assms by (simp add: live_tick_def)
next
  case (Some b)
  then have "20 \<le> b \<and> b \<le> 220" using assms(1) by simp
  then have "20 \<le> smooth prev b \<and> smooth prev b \<le> 220"
    using smooth_bounds [of b prev] assms(3) by simp
  then show ?thesis using Some assms(2) by (simp add: live_tick_def Let_def)
qed

lemma range_step:
  assumes "(\<forall>x\<in>set (good_bpms s). 20 \<le> x \<and> x \<le> 220)
         \<and> (\<forall>p. prev_live s = Some p \<longrightarrow> 20 \<le> p \<and> p \<le> 220)"
  shows "(\<forall>x\<in>set (good_bpms (session_step hp d ev s)). 20 \<le> x \<and> x \<le> 220)
       \<and> (\<forall>p. prev_live (session_step hp d ev s) = Some p \<longrightarrow> 20 \<le> p \<and> p \<le> 220)"
proof (cases ev)
  case Consumer
  then show ?thesis using assms
    by (simp add: consumer_step_def split: list.splits option.splits)
next
  case (Worker r)
  show ?thesis
  proof (cases "pc s")
    case (InnerTest g)
    have "(\<forall>x\<in>set (good_bpms (process_window hp (window_of g) s)). 20 \<le> x \<and> x \<le> 220)
       \<and> (\<forall>p. prev_live (process_window hp (window_of g) s) = Some p \<longrightarrow> 20 \<le> p \<and> p \<le> 220)"
      using live_tick_range [where good = "good_bpms s" and prev = "prev_live s"
          and est = "compute_bpm hp (if str_lower USE_CHANNEL = ''ir'' then snd (window_of g)
                                     else fst (window_of g)) SAMPLE_HZ"]
        compute_bpm_Some assms
      by (simp add: process_window_def Let_def)
    then show ?thesis using Worker InnerTest assms by simp
  qed (use Worker assms in \<open>simp_all add: on_exception_keeps finalize_def
        split: sum.splits collect_result.splits\<close>)
qed

lemma range_run:
  "(\<forall>x\<in>set (good_bpms (run hp d evs session0)). 20 \<le> x \<and> x \<le> 220)
   \<and> (\<forall>p. prev_live (run hp d evs session0) = Some p \<longrightarrow> 20 \<le> p \<and> p \<le> 220)"
  by (rule run_invariant) (simp add: session0_def, rule range_step)

lemma final_step:
  assumes "(pc s = Done \<longrightarrow> done_flag s \<and> avg s = final_avg (good_bpms s))
         \<and> (pc s \<noteq> Done \<longrightarrow> \<not> done_flag s \<and> avg s = None)"
  shows "(pc (session_step hp d ev s) = Done \<longrightarrow>
            done_flag (session_step hp d ev s)
            \<and> avg (session_step hp d ev s) = final_avg (good_bpms (session_step hp d ev s)))
       \<and> (pc (session_step hp d ev s) \<noteq> Done \<longrightarrow>
            \<not> done_flag (session_step hp d ev s) \<and> avg (session_step hp d ev s) = None)"
proof (cases ev)
  case Consumer
  then show ?thesis using assms
    by (simp add: consumer_step_def split: list.splits option.splits)
next
  case (Worker r)
  show ?thesis
  proof (cases "pc s")
    case InitSensor
    then show ?thesis using Worker assms
      by (auto simp: on_exception_keeps on_exception_not_Done split: sum.splits)
  next
    case (InNext g)
    then show ?thesis using Worker assms
      by (auto simp: on_exception_keeps on_exception_not_Done split: collect_result.splits)
  qed (use Worker assms in \<open>simp_all add: finalize_def process_window_keeps\<close>)
qed

lemma final_run:
  "(pc (run hp d evs session0) = Done \<longrightarrow>
      done_flag (run hp d evs session0)
      \<and> avg (run hp d evs session0) = final_avg (good_bpms (run hp d evs session0)))
   \<and> (pc (run hp d evs session0) \<noteq> Done \<longrightarrow>
      \<not> done_flag (run hp d evs session0) \<and> avg (run hp d evs session0) = None)"
  by (rule run_invariant) (simp add: session0_def, rule final_step)

lemma queue_step:
  assumes "length (q s) \<le> maxsize"
  shows "length (q (session_step hp d ev s)) \<le> maxsize"
proof (cases ev)
  case Consumer
  then show ?thesis using assms
    by (auto simp: consumer_step_def split: list.splits option.splits)
next
  case (Worker r)
  show ?thesis
    by (cases "pc s")
      (use Worker assms in \<open>simp_all add: on_exception_def finalize_def process_window_def
        Let_def try_put_length split: sum.splits collect_result.splits\<close>)
qed

lemma resets_step:
  assumes "MAX_RESETS < resets s \<longrightarrow> pc s = Finalize \<or> pc s = Done"
  shows "MAX_RESETS < resets (session_step hp d ev s) \<longrightarrow>
         pc (session_step hp d ev s) = Finalize \<or> pc (session_step hp d ev s) = Done"
proof (cases ev)
  case Consumer
  then show ?thesis using assms
    by (simp add: consumer_step_def split: list.splits option.splits)
next
  case (Worker r)
  show ?thesis
    by (cases "pc s")
      (use Worker assms in \<open>auto simp: on_exception_def finalize_def process_window_keeps
        Let_def split: sum.splits collect_result.splits\<close>)
qed

lemma length_normalize_sig: "length (normalize_sig sig) = length sig"
  by (simp add: normalize_sig_def)

lemmas demo_simps = demo_events_def demo_resp_def demo_hp_def get_hr_def session0_def
  init_sensor_def extend_both_def fill_timeout_def WINDOW_SEC_def SAMPLE_HZ_def STEP_SEC_def
  need_samples_def step_samples_def last_n_def window_of_def process_window_def live_tick_def
  compute_bpm_def length_normalize_sig smooth_def EMA_ALPHA_def USE_CHANNEL_def str_lower_def
  lower_char_def try_put_def put_nowait_def maxsize_def finalize_def final_avg_def np_mean_def
  py_round_def str_int_def str_nat.simps consumer_step_def Let_def wait_avg_def float_simps


lemma demo_run:
  "get_hr demo_hp 60 demo_events =
     \<lparr>pc = Done, resets = 0, m = True, prev_live = Some (275 / 4),
        good_bpms = [60, 65, 275 / 4], start_t = 0, q = [], avg = Some 65,
        done_flag = True,
        lines = [''LIVE  60 BPM'', ''LIVE  65 BPM'', ''LIVE  69 BPM''],
        ended = True\<rparr>"
  by (simp add: demo_simps)

lemma resets_run:
  "MAX_RESETS < resets (run hp d evs session0) \<longrightarrow>
   pc (run hp d evs session0) = Finalize \<or> pc (run hp d evs session0) = Done"
  by (rule run_invariant) (simp add: session0_def, rule resets_step)

lemma queue_run: "length (q (run hp d evs session0)) \<le> maxsize"
  by (rule run_invariant) (simp add: session0_def, rule queue_step)

lemma worker_step_full:
  assumes "length (q s) = maxsize"
  shows "q (session_step hp d (Worker r) s) = q s"
  by (cases "pc s")
    (use assms in \<open>simp_all add: on_exception_def finalize_def process_window_def
      Let_def try_put_full split: sum.splits collect_result.splits\<close>)

lemma fault_run:
  "resets (get_hr demo_hp 60 fault_events) = 4
   \<and> pc (get_hr demo_hp 60 fault_events) = Finalize
   \<and> good_bpms (get_hr demo_hp 60 fault_events) = [60, 65]
   \<and> start_t (get_hr demo_hp 60 fault_events) = 0"
  by (simp add: demo_simps fault_events_def fault_resp_def on_exception_def MAX_RESETS_def)

lemma fault_events_split: "fault_events = fault_prefix @ [Worker fault_resp]"
  by (simp add: fault_events_def fault_prefix_def)

lemma fault_prefix_run:
  "resets (get_hr demo_hp 60 fault_prefix) = 3
   \<and> pc (get_hr demo_hp 60 fault_prefix) = InitSensor"
  by (simp add: demo_simps fault_prefix_def fault_resp_def on_exception_def MAX_RESETS_def)

lemma resets_cross:
  assumes "resets s \<le> MAX_RESETS" "MAX_RESETS < resets (session_step hp d ev s)"
  shows "pc (session_step hp d ev s) = Finalize
       \<and> (pc s = InitSensor \<or> (\<exists>g. pc s = InNext g))
       \<and> (\<exists>r. ev = Worker r)"
proof (cases ev)
  case Consumer
  then show ?thesis using assms
    by (auto simp: consumer_step_def split: list.splits option.splits if_splits)
next
  case (Worker r)
  show ?thesis
    by (cases "pc s")
      (use Worker assms in \<open>auto simp: on_exception_def finalize_def process_window_keeps
        Let_def split: sum.splits collect_result.splits if_splits\<close>)
qed

lemmas temp_simps = read_temp_c_float_def get_device_file_def path_join_def
  str_endswith_def str_strip_def is_space_def py_int_def digit_of_def Let_def

lemma demo_w1_reading: "read_temp_c_float demo_w1 3 = Inr (23125 / 1000)"
  by (simp add: demo_w1_def temp_simps numeral_3_eq_3)

lemma no_w1_reading: "read_temp_c_float no_w1 3 = Inl (FileNotFoundError no_device_msg)"
  by (simp add: no_w1_def temp_simps)

lemma length_last_n: "0 < n \<Longrightarrow> length (last_n n xs) = min n (length xs)"
  by (simp add: last_n_def)

lemma collect_step_yield:
  assumes "0 < need" "collect_step need step r g = Yield g'"
  shows "length (buf_red g') \<le> need \<and> length (buf_ir g') \<le> need"
  using assms
  by (cases g) (auto simp: length_last_n split: sum.splits if_splits)

lemma collect_step_poll:
  assumes "0 < need"
  shows "collect_step need step r (Poll red ir) = Yield g' \<Longrightarrow> length (buf_ir g') = need"
    and "collect_step need step r (Poll red ir) = Running g' \<Longrightarrow> \<exists>red' ir'. g' = Poll red' ir'"
  using assms by (auto simp: length_last_n split: sum.splits if_splits)

lemma collect_next_yield:
  assumes "0 < need"
  shows "collect_next need step rs g = Yield g' \<Longrightarrow>
         length (buf_red g') \<le> need \<and> length (buf_ir g') \<le> need"
proof (induction rs arbitrary: g)
  case Nil
  then show ?case by simp
next
  case (Cons r rs)
  then show ?case using collect_step_yield [OF assms, of step r g]
    by (auto split: collect_result.splits)
qed

lemma collect_next_poll:
  assumes "0 < need"
  shows "collect_next need step rs (Poll red ir) = Yield g' \<Longrightarrow> length (buf_ir g') = need"
proof (induction rs arbitrary: red ir)
  case Nil
  then show ?case by simp
next
  case (Cons r rs)
  show ?case
  proof (cases "collect_step need step r (Poll red ir)")
    case (Running g1)
    then obtain red' ir' where "g1 = Poll red' ir'"
      using collect_step_poll(2) [OF assms] by blast
    then show ?thesis using Cons Running by simp
  next
    case (Yield g1)
    then show ?thesis using Cons.prems collect_step_poll(1) [OF assms Yield] by simp
  next
    case (Raise e)
    then show ?thesis using Cons.prems by simp
  qed
qed

lemma collect_next_fill:
  assumes "0 < need"
  shows "collect_next need step rs g = Yield g' \<Longrightarrow>
         (\<exists>red ir. g = FillRead red ir st \<or> g = FillClock red ir st) \<Longrightarrow>
         \<forall>r\<in>set rs. clock r - st \<le> fill_timeout \<Longrightarrow>
         length (buf_ir g') = need"
proof (induction rs arbitrary: g)
  case Nil
  then show ?case by simp
next
  case (Cons r rs)
  from Cons.prems(2) obtain red ir where g: "g = FillRead red ir st \<or> g = FillClock red ir st"
    by blast
  have t: "\<not> fill_timeout < clock r - st" using Cons.prems(3) by auto
  from g show ?case
  proof
    assume "g = FillRead red ir st"
    then show ?thesis using Cons by (auto split: sum.splits)
  next
    assume "g = FillClock red ir st"
    then show ?thesis using Cons t assms
      by (auto simp: length_last_n split: if_splits)
  qed
qed


lemma last_n_same_length:
  "length xs = length ys \<Longrightarrow> length (last_n n xs) = length (last_n n ys)"
  by (simp add: last_n_def)

lemma collect_step_same_length:
  assumes "length (buf_red g) = length (buf_ir g)"
    and "\<forall>a b. sensor_read r = Inr (a, b) \<longrightarrow> length a = length b"
  shows "collect_step need step r g = Yield g' \<Longrightarrow> length (buf_red g') = length (buf_ir g')"
    and "collect_step need step r g = Running g' \<Longrightarrow> length (buf_red g') = length (buf_ir g')"
proof -
  have ri: "\<And>ri. sensor_read r = Inr ri \<Longrightarrow> length (fst ri) = length (snd ri)"
  proof -
    fix ri assume "sensor_read r = Inr ri"
    then have "sensor_read r = Inr (fst ri, snd ri)" by simp
    then show "length (fst ri) = length (snd ri)" using assms(2) by blast
  qed
  {
    assume y: "collect_step need step r g = Yield g'"
    show "length (buf_red g') = length (buf_ir g')"
    proof (cases g)
      case GenNew
      then show ?thesis using y by (auto simp: last_n_def split: if_splits)
    next
      case (FillRead red ir st)
      then show ?thesis using y by (simp split: sum.splits)
    next
      case (FillClock red ir st)
      then have "g' = Poll (last_n need red) (last_n need ir)" and "length red = length ir"
        using y assms(1) by (simp_all split: if_splits)
      then show ?thesis using last_n_same_length [of red ir need] by simp
    next
      case (Poll red ir)
      show ?thesis
      proof (cases "sensor_read r")
        case (Inl e)
        then show ?thesis using y Poll by simp
      next
        case (Inr ri)
        then have "g' = Poll (last_n need (red @ fst ri)) (last_n need (ir @ snd ri))"
          using y Poll by (simp split: if_splits)
        moreover have "length (red @ fst ri) = length (ir @ snd ri)"
          using ri [OF Inr] assms(1) Poll by simp
        ultimately show ?thesis
          using last_n_same_length [of "red @ fst ri" "ir @ snd ri" need] by simp
      qed
    qed
  }
  {
    assume y: "collect_step need step r g = Running g'"
    show "length (buf_red g') = length (buf_ir g')"
    proof (cases g)
      case GenNew
      then show ?thesis using y by (auto split: if_splits)
    next
      case (FillRead red ir st)
      show ?thesis
      proof (cases "sensor_read r")
        case (Inl e)
        then show ?thesis using y FillRead by simp
      next
        case (Inr ri)
        then have "g' = FillClock (fst (extend_both red ir ri)) (snd (extend_both red ir ri)) st"
          using y FillRead by simp
        then show ?thesis using ri [OF Inr] assms(1) FillRead by (simp add: extend_both_def)
      qed
    next
      case (FillClock red ir st)
      then show ?thesis using y assms(1) by (auto split: if_splits)
    next
      case (Poll red ir)
      show ?thesis
      proof (cases "sensor_read r")
        case (Inl e)
        then show ?thesis using y Poll by simp
      next
        case (Inr ri)
        then have "g' = Poll (red @ fst ri) (ir @ snd ri) \<or> g' = Poll red ir"
          using y Poll by (simp split: if_splits)
        then show ?thesis using ri [OF Inr] assms(1) Poll by auto
      qed
    qed
  }
qed

lemma collect_next_same_length:
  "collect_next need step rs g = Yield g' \<Longrightarrow>
   length (buf_red g) = length (buf_ir g) \<Longrightarrow>
   \<forall>r\<in>set rs. \<forall>a b. sensor_read r = Inr (a, b) \<longrightarrow> length a = length b \<Longrightarrow>
   length (buf_red g') = length (buf_ir g')"
proof (induction rs arbitrary: g)
  case Nil
  then show ?case by simp
next
  case (Cons r rs)
  have c: "\<forall>a b. sensor_read r = Inr (a, b) \<longrightarrow> length a = length b"
    using Cons.prems(3) by simp
  show ?case
  proof (cases "collect_step need step r g")
    case (Running g1)
    have "length (buf_red g1) = length (buf_ir g1)"
      using collect_step_same_length(2) [OF Cons.prems(2) c Running] .
    then show ?thesis using Cons Running by simp
  next
    case (Yield g1)
    then show ?thesis
      using Cons.prems(1) collect_step_same_length(1) [OF Cons.prems(2) c Yield] by simp
  next
    case (Raise e)
    then show ?thesis using Cons.prems by simp
  qed
qed

lemmas flat_simps = flat_resp_def flat_hp_def session0_def
  init_sensor_def extend_both_def fill_timeout_def WINDOW_SEC_def SAMPLE_HZ_def STEP_SEC_def
  need_samples_def step_samples_def last_n_def window_of_def process_window_def live_tick_def
  compute_bpm_def USE_CHANNEL_def str_lower_def lower_char_def status_msg_def Let_def

lemma flat_start:
  "pc (run flat_hp 300 [Worker (flat_resp 0), Worker (flat_resp 0), Worker (flat_resp 0),
      Worker (flat_resp 0), Worker (flat_resp 0), Worker (flat_resp 0)] session0)
     = InnerTest (Poll (replicate 800 0) (replicate 800 0))
   \<and> start_t (run flat_hp 300 [Worker (flat_resp 0), Worker (flat_resp 0), Worker (flat_resp 0),
      Worker (flat_resp 0), Worker (flat_resp 0), Worker (flat_resp 0)] session0) = 0
   \<and> q (run flat_hp 300 [Worker (flat_resp 0), Worker (flat_resp 0), Worker (flat_resp 0),
      Worker (flat_resp 0), Worker (flat_resp 0), Worker (flat_resp 0)] session0) = []
   \<and> good_bpms (run flat_hp 300 [Worker (flat_resp 0), Worker (flat_resp 0), Worker (flat_resp 0),
      Worker (flat_resp 0), Worker (flat_resp 0), Worker (flat_resp 0)] session0) = []
   \<and> lines (run flat_hp 300 [Worker (flat_resp 0), Worker (flat_resp 0), Worker (flat_resp 0),
      Worker (flat_resp 0), Worker (flat_resp 0), Worker (flat_resp 0)] session0) = []
   \<and> \<not> ended (run flat_hp 300 [Worker (flat_resp 0), Worker (flat_resp 0), Worker (flat_resp 0),
      Worker (flat_resp 0), Worker (flat_resp 0), Worker (flat_resp 0)] session0)"
  by (simp add: flat_simps)

lemma flat_tick:
  assumes "pc s = InnerTest (Poll (replicate 800 0) (replicate 800 0))" "start_t s = 0"
  shows "pc (run flat_hp 300 [Worker (flat_resp 0), Worker (flat_resp 0)] s) = pc s
       \<and> start_t (run flat_hp 300 [Worker (flat_resp 0), Worker (flat_resp 0)] s) = 0
       \<and> q (run flat_hp 300 [Worker (flat_resp 0), Worker (flat_resp 0)] s)
           = try_put (q s) (Some ''LIVE  --  (processing error)'')
       \<and> good_bpms (run flat_hp 300 [Worker (flat_resp 0), Worker (flat_resp 0)] s) = good_bpms s
       \<and> lines (run flat_hp 300 [Worker (flat_resp 0), Worker (flat_resp 0)] s) = lines s
       \<and> ended (run flat_hp 300 [Worker (flat_resp 0), Worker (flat_resp 0)] s) = ended s"
  using assms by (simp add: flat_simps)

lemma try_put_replicate:
  assumes "j \<le> maxsize"
  shows "try_put (replicate j x) x = replicate (min maxsize (Suc j)) x"
proof (cases "j < maxsize")
  case True
  then have "min maxsize (Suc j) = Suc j" by simp
  then show ?thesis using True
    by (simp add: try_put_def put_nowait_def replicate_append_same)
next
  case False
  then have "j = maxsize" using assms by simp
  then show ?thesis by (simp add: try_put_def put_nowait_def)
qed

lemma flat_ticks:
  assumes "pc s = InnerTest (Poll (replicate 800 0) (replicate 800 0))" "start_t s = 0"
    and "q s = replicate j (Some ''LIVE  --  (processing error)'')" and "j \<le> maxsize"
  shows "pc (run flat_hp 300 (concat (replicate n [Worker (flat_resp 0), Worker (flat_resp 0)])) s) = pc s
       \<and> start_t (run flat_hp 300 (concat (replicate n [Worker (flat_resp 0), Worker (flat_resp 0)])) s) = 0
       \<and> q (run flat_hp 300 (concat (replicate n [Worker (flat_resp 0), Worker (flat_resp 0)])) s)
           = replicate (min maxsize (j + n)) (Some ''LIVE  --  (processing error)'')
       \<and> good_bpms (run flat_hp 300 (concat (replicate n [Worker (flat_resp 0), Worker (flat_resp 0)])) s) = good_bpms s
       \<and> lines (run flat_hp 300 (concat (replicate n [Worker (flat_resp 0), Worker (flat_resp 0)])) s) = lines s
       \<and> ended (run flat_hp 300 (concat (replicate n [Worker (flat_resp 0), Worker (flat_resp 0)])) s) = ended s"
  using assms
proof (induction n arbitrary: s j)
  case 0
  then show ?case by (simp add: min_def)
next
  case (Suc n)
  let ?s1 = "run flat_hp 300 [Worker (flat_resp 0), Worker (flat_resp 0)] s"
  have t: "pc ?s1 = pc s \<and> start_t ?s1 = 0
       \<and> q ?s1 = try_put (q s) (Some ''LIVE  --  (processing error)'')
       \<and> good_bpms ?s1 = good_bpms s \<and> lines ?s1 = lines s \<and> ended ?s1 = ended s"
    using flat_tick [OF Suc.prems(1) Suc.prems(2)] .
  then have q1: "q ?s1 = replicate (min maxsize (Suc j)) (Some ''LIVE  --  (processing error)'')"
    using Suc.prems(3) Suc.prems(4) by (simp add: try_put_replicate)
  have r: "run flat_hp 300 (concat (replicate (Suc n) [Worker (flat_resp 0), Worker (flat_resp 0)])) s
         = run flat_hp 300 (concat (replicate n [Worker (flat_resp 0), Worker (flat_resp 0)])) ?s1"
    by simp
  have m: "min maxsize (min maxsize (Suc j) + n) = min maxsize (j + Suc n)"
    by (simp add: min_def)
  show ?case
    using Suc.IH [of ?s1 "min maxsize (Suc j)"] t q1 Suc.prems(1) unfolding r m by simp
qed

lemma consumer_turns:
  assumes "q s = replicate j (Some x)" "\<not> ended s"
  shows "q (run hp d (replicate k Consumer) s) = replicate (j - k) (Some x)
       \<and> \<not> ended (run hp d (replicate k Consumer) s)
       \<and> lines (run hp d (replicate k Consumer) s) = lines s @ replicate (min k j) x
       \<and> done_flag (run hp d (replicate k Consumer) s) = done_flag s
       \<and> avg (run hp d (replicate k Consumer) s) = avg s"
  using assms
proof (induction k arbitrary: s j)
  case 0
  then show ?case by simp
next
  case (Suc k)
  show ?case
  proof (cases j)
    case 0
    then have "consumer_step s = s" using Suc.prems by (simp add: consumer_step_def)
    then show ?thesis using Suc.IH [of s j] Suc.prems 0 by simp
  next
    case (Suc i)
    let ?s1 = "consumer_step s"
    have s1: "q ?s1 = replicate i (Some x) \<and> \<not> ended ?s1 \<and> lines ?s1 = lines s @ [x]
              \<and> done_flag ?s1 = done_flag s \<and> avg ?s1 = avg s"
      using Suc.prems Suc by (simp add: consumer_step_def)
    then show ?thesis using Suc.IH [of ?s1 i] Suc
      by (simp add: replicate_append_same)
  qed
qed

lemma flat_end:
  assumes "pc s = InnerTest g" "start_t s = 0" "q s = replicate maxsize (Some x)"
    and "good_bpms s = []"
  shows "pc (run flat_hp 300 [Worker (flat_resp 300), Worker (flat_resp 300), Worker (flat_resp 300)] s) = Done
       \<and> q (run flat_hp 300 [Worker (flat_resp 300), Worker (flat_resp 300), Worker (flat_resp 300)] s) = q s
       \<and> done_flag (run flat_hp 300 [Worker (flat_resp 300), Worker (flat_resp 300), Worker (flat_resp 300)] s)
       \<and> avg (run flat_hp 300 [Worker (flat_resp 300), Worker (flat_resp 300), Worker (flat_resp 300)] s) = None
       \<and> lines (run flat_hp 300 [Worker (flat_resp 300), Worker (flat_resp 300), Worker (flat_resp 300)] s) = lines s
       \<and> ended (run flat_hp 300 [Worker (flat_resp 300), Worker (flat_resp 300), Worker (flat_resp 300)] s) = ended s"
  using assms by (simp add: flat_resp_def finalize_def final_avg_def try_put_full)

lemma late_run:
  "resets (get_hr demo_hp 20 late_prefix) = 3
   \<and> resets (get_hr demo_hp 20 (late_prefix @ [Worker (fault_at 25)])) = 4
   \<and> pc (get_hr demo_hp 20 (late_prefix @ [Worker (fault_at 25)])) = Finalize
   \<and> start_t (get_hr demo_hp 20 (late_prefix @ [Worker (fault_at 25)])) = 0"
  by (simp add: demo_simps late_prefix_def fault_at_def idle_resp_def on_exception_def MAX_RESETS_def)

lemma drift_run:
  "get_hr drift_hp 60 drift_events =
     \<lparr>pc = Done, resets = 0, m = True,
        prev_live = Some (5882827013252711 / 281474976710656),
        good_bpms = [2828823515942093 / 140737488355328, 5882827013252711 / 281474976710656],
        start_t = 0,
        q = [Some ''LIVE  20 BPM'', Some ''LIVE  21 BPM'', None],
        avg = Some 20, done_flag = True, lines = [], ended = False\<rparr>"
  by (simp add: demo_simps drift_events_def drift_hp_def)

lemma final_avg_nearest:
  "final_avg good =
     (if good = [] then None
      else Some (py_round (fdiv (fadd 0 (pairwise_sum (map fl good))) (real (length good)))))"
  by (simp add: final_avg_def np_mean_def)

section \<open>Properties\<close>

text \<open>
  C4. Whatever the window, a BPM value of the estimator that is not finite or lies outside
  the closed interval [20, 220] gives the pair (no value, \<open>out_of_range\<close>); a finite value
  inside the interval is returned unchanged with status \<open>ok\<close>.
\<close>

theorem compute_bpm_range:
  assumes "hp (normalize_sig sig) fs = HpMeasures (Some v)"
  shows "compute_bpm hp sig fs =
     (case v of
        Finite bpm \<Rightarrow> if 20 \<le> bpm \<and> bpm \<le> 220 then (Some bpm, ''ok'')
                      else (None, ''out_of_range'')
      | PosInf \<Rightarrow> (None, ''out_of_range'')
      | NegInf \<Rightarrow> (None, ''out_of_range'')
      | NaN \<Rightarrow> (None, ''out_of_range''))"
  using assms by (cases v) (auto simp: compute_bpm_def)

theorem compute_bpm_range_witness:
  "compute_bpm (\<lambda>sig fs. HpMeasures (Some (Finite 221))) [1, 2, 3] 100 = (None, ''out_of_range'')
   \<and> compute_bpm (\<lambda>sig fs. HpMeasures (Some NaN)) [1, 2, 3] 100 = (None, ''out_of_range'')
   \<and> compute_bpm (\<lambda>sig fs. HpMeasures (Some (Finite 220))) [1, 2, 3] 100 = (Some 220, ''ok'')"
  using compute_bpm_range [of "\<lambda>sig fs. HpMeasures (Some (Finite 221))" "[1, 2, 3]" 100 "Finite 221"]
    compute_bpm_range [of "\<lambda>sig fs. HpMeasures (Some NaN)" "[1, 2, 3]" 100 NaN]
    compute_bpm_range [of "\<lambda>sig fs. HpMeasures (Some (Finite 220))" "[1, 2, 3]" 100 "Finite 220"]
  by simp

text \<open>
  C1, as stated, fails in double arithmetic. With the estimates 20.1 and 23.3 the accepted
  list is 20.1 and 20.900000000000002; \<^verbatim>\<open>np.mean\<close> adds them to 41.0, halves that to
  20.5, and the result is 20. The arithmetic mean of the two values lies above 20.5: it
  is more than one half away from 20, and its rounding is 21.
\<close>

theorem final_average_counterexample:
  "wait_avg (get_hr drift_hp 60 drift_events) = Some (Some 20)
   \<and> good_bpms (get_hr drift_hp 60 drift_events)
       = [2828823515942093 / 140737488355328, 5882827013252711 / 281474976710656]
   \<and> py_round (sum_list [2828823515942093 / 140737488355328, 5882827013252711 / 281474976710656]
                / real (length [2828823515942093 / 140737488355328 :: real,
                                5882827013252711 / 281474976710656])) = 21
   \<and> 1 / 2 < \<bar>real_of_int 20
               - sum_list [2828823515942093 / 140737488355328, 5882827013252711 / 281474976710656]
                 / real (length [2828823515942093 / 140737488355328 :: real,
                                 5882827013252711 / 281474976710656])\<bar>"
  by (simp add: drift_run wait_avg_def py_round_def)

text \<open>
  C1, amended. In every session of \<^verbatim>\<open>get_hr\<close>, whatever the sensor, the clock and the
  consumer do, the value \<^verbatim>\<open>wait_avg\<close> returns is \<open>None\<close> when the list of accepted
  smoothed values is empty, and otherwise the mean of exactly that list as \<^verbatim>\<open>np.mean\<close>
  computes it in doubles (the pairwise sum of the values, each addition rounded, divided
  by their number and rounded), rounded to an integer that is at most one half away from
  that double mean.
\<close>

theorem final_average_is_rounded_mean:
  assumes "wait_avg (get_hr hp duration_sec evs) = Some a"
  shows "a = (if good_bpms (get_hr hp duration_sec evs) = [] then None
              else Some (py_round
                (fdiv (fadd 0 (pairwise_sum (map fl (good_bpms (get_hr hp duration_sec evs)))))
                      (real (length (good_bpms (get_hr hp duration_sec evs)))))))
       \<and> (\<forall>n. a = Some n \<longrightarrow>
              \<bar>real_of_int n
               - fdiv (fadd 0 (pairwise_sum (map fl (good_bpms (get_hr hp duration_sec evs)))))
                      (real (length (good_bpms (get_hr hp duration_sec evs))))\<bar> \<le> 1 / 2)"
proof -
  let ?s = "get_hr hp duration_sec evs"
  from assms have d: "done_flag ?s" and a: "a = avg ?s"
    by (auto simp: wait_avg_def split: if_splits)
  have "pc ?s = Done"
    using final_run [of hp duration_sec evs] d unfolding get_hr_def by blast
  then have "avg ?s = final_avg (good_bpms ?s)"
    using final_run [of hp duration_sec evs] unfolding get_hr_def by blast
  with a have eq: "a = final_avg (good_bpms ?s)" by simp
  show ?thesis
    using eq py_round_nearest
      [of "fdiv (fadd 0 (pairwise_sum (map fl (good_bpms ?s)))) (real (length (good_bpms ?s)))"]
    by (auto simp: final_avg_nearest)
qed

theorem final_average_is_rounded_mean_witness:
  "wait_avg (get_hr demo_hp 60 demo_events) = Some (Some 65)
   \<and> good_bpms (get_hr demo_hp 60 demo_events) = [60, 65, 275 / 4]
   \<and> fdiv (fadd 0 (pairwise_sum (map fl [60, 65, 275 / 4]))) (real (length [60, 65, 275 / 4 :: real]))
       = 4544648061474133 / 70368744177664
   \<and> Some (65 :: int) = Some (py_round (4544648061474133 / 70368744177664))
   \<and> \<bar>real_of_int 65 - 4544648061474133 / 70368744177664\<bar> \<le> 1 / 2"
proof -
  have v: "fdiv (fadd 0 (pairwise_sum (map fl [60, 65, 275 / 4])))
             (real (length [60, 65, 275 / 4 :: real])) = 4544648061474133 / 70368744177664"
    by (simp add: float_simps py_round_def)
  show ?thesis
    using final_average_is_rounded_mean [of demo_hp 60 demo_events "Some 65"]
    unfolding demo_run v by (simp add: wait_avg_def demo_run v py_round_def)
qed

text \<open>
  C10. In every session every value of the accepted list lies in the closed interval
  [20, 220], and so does the final average when there is one (for a list of at most
  \<open>2 ^ 40\<close> values: up to there every multiple of 20 and of 220 that bounds a partial
  sum is a double).
\<close>

theorem accepted_values_in_range:
  "(\<forall>x\<in>set (good_bpms (get_hr hp duration_sec evs)). 20 \<le> x \<and> x \<le> 220)
   \<and> (length (good_bpms (get_hr hp duration_sec evs)) \<le> 2 ^ 40 \<longrightarrow>
        (\<forall>n. avg (get_hr hp duration_sec evs) = Some n \<longrightarrow> 20 \<le> n \<and> n \<le> 220))"
proof -
  let ?s = "get_hr hp duration_sec evs"
  have r: "\<forall>x\<in>set (good_bpms ?s). 20 \<le> x \<and> x \<le> 220"
    using range_run [of hp duration_sec evs] unfolding get_hr_def by blast
  have "\<forall>n. avg ?s = Some n \<longrightarrow> 20 \<le> n \<and> n \<le> 220" if len: "length (good_bpms ?s) \<le> 2 ^ 40"
  proof (intro allI impI)
    fix n assume n: "avg ?s = Some n"
    then have "pc ?s = Done"
      using final_run [of hp duration_sec evs] unfolding get_hr_def by force
    then have "avg ?s = final_avg (good_bpms ?s)"
      using final_run [of hp duration_sec evs] unfolding get_hr_def by blast
    with n have ne: "good_bpms ?s \<noteq> []" and v: "n = py_round (np_mean (good_bpms ?s))"
      by (auto simp: final_avg_def split: if_splits)
    have "20 \<le> np_mean (good_bpms ?s) \<and> np_mean (good_bpms ?s) \<le> 220"
      using np_mean_bounds [OF ne len] r by blast
    then show "20 \<le> n \<and> n \<le> 220"
      using py_round_lower [of 20 "np_mean (good_bpms ?s)"]
        py_round_upper [of "np_mean (good_bpms ?s)" 220] v by simp
  qed
  with r show ?thesis by blast
qed

theorem accepted_values_in_range_witness:
  "good_bpms (get_hr demo_hp 60 demo_events) = [60, 65, 275 / 4]
   \<and> length (good_bpms (get_hr demo_hp 60 demo_events)) \<le> 2 ^ 40
   \<and> avg (get_hr demo_hp 60 demo_events) = Some 65
   \<and> (20 :: int) \<le> 65 \<and> (65 :: int) \<le> 220"
  using accepted_values_in_range [of demo_hp 60 demo_events]
  by (simp add: demo_run)

text \<open>
  C3, as stated, fails when the fourth fault comes late. In a session of 20 seconds the
  sensor's construction fails three times at the start; the initial fill then tests only
  its own timeout of 30 seconds, and a read that fails at 25 seconds is the fourth fault:
  the session ends there, after the configured duration.
\<close>

theorem reset_bound_counterexample:
  "resets (get_hr demo_hp 20 late_prefix) \<le> MAX_RESETS
   \<and> MAX_RESETS < resets (get_hr demo_hp 20 (late_prefix @ [Worker (fault_at 25)]))
   \<and> pc (get_hr demo_hp 20 (late_prefix @ [Worker (fault_at 25)])) = Finalize
   \<and> \<not> clock (fault_at 25) - start_t (get_hr demo_hp 20 (late_prefix @ [Worker (fault_at 25)])) < 20"
proof -
  have c: "clock (fault_at 25) = 25" by (simp add: fault_at_def)
  show ?thesis by (simp add: late_run MAX_RESETS_def c)
qed

text \<open>
  C3, amended. Once more than \<open>MAX_RESETS\<close> = 3 I/O faults have been counted in a
  session, the worker has left both loops: the call on which the count passes the bound
  leads from inside the loop body (the sensor's construction or a read of
  \<^verbatim>\<open>next(stream)\<close>) straight to the finalization, with no test of the deadline in
  between, so the session ends at the fourth fault, be that before or after the
  configured duration. The worker's next action, whatever the clock reads, ends the
  session the way deadline expiry does: the average is \<open>None\<close> for an empty list and
  otherwise the rounded double mean of the values accepted before the faults, the
  completion event is set, and no exception is left.
\<close>

theorem reset_bound_ends_session:
  assumes "MAX_RESETS < resets (get_hr hp duration_sec evs)"
  shows "(pc (get_hr hp duration_sec evs) = Finalize \<or> pc (get_hr hp duration_sec evs) = Done)
       \<and> pc (session_step hp duration_sec (Worker r) (get_hr hp duration_sec evs)) = Done
       \<and> done_flag (session_step hp duration_sec (Worker r) (get_hr hp duration_sec evs))
       \<and> avg (session_step hp duration_sec (Worker r) (get_hr hp duration_sec evs))
           = (if good_bpms (get_hr hp duration_sec evs) = [] then None
              else Some (py_round
                (fdiv (fadd 0 (pairwise_sum (map fl (good_bpms (get_hr hp duration_sec evs)))))
                      (real (length (good_bpms (get_hr hp duration_sec evs)))))))
       \<and> good_bpms (session_step hp duration_sec (Worker r) (get_hr hp duration_sec evs))
           = good_bpms (get_hr hp duration_sec evs)
       \<and> (\<forall>evs' ev. evs = evs' @ [ev] \<and> resets (get_hr hp duration_sec evs') \<le> MAX_RESETS \<longrightarrow>
             pc (get_hr hp duration_sec evs) = Finalize
             \<and> (pc (get_hr hp duration_sec evs') = InitSensor
                \<or> (\<exists>g. pc (get_hr hp duration_sec evs') = InNext g)))"
proof -
  let ?s = "get_hr hp duration_sec evs"
  have "pc ?s = Finalize \<or> pc ?s = Done"
    using resets_run [of hp duration_sec evs] assms unfolding get_hr_def by blast
  then have main: "(pc ?s = Finalize \<or> pc ?s = Done)
       \<and> pc (session_step hp duration_sec (Worker r) ?s) = Done
       \<and> done_flag (session_step hp duration_sec (Worker r) ?s)
       \<and> avg (session_step hp duration_sec (Worker r) ?s) = final_avg (good_bpms ?s)
       \<and> good_bpms (session_step hp duration_sec (Worker r) ?s) = good_bpms ?s"
  proof
    assume "pc ?s = Finalize"
    then show ?thesis by (simp add: finalize_def)
  next
    assume d: "pc ?s = Done"
    then have "done_flag ?s \<and> avg ?s = final_avg (good_bpms ?s)"
      using final_run [of hp duration_sec evs] unfolding get_hr_def by blast
    with d show ?thesis by simp
  qed
  have cross: "\<forall>evs' ev. evs = evs' @ [ev] \<and> resets (get_hr hp duration_sec evs') \<le> MAX_RESETS \<longrightarrow>
             pc ?s = Finalize
             \<and> (pc (get_hr hp duration_sec evs') = InitSensor
                \<or> (\<exists>g. pc (get_hr hp duration_sec evs') = InNext g))"
  proof (intro allI impI, elim conjE)
    fix evs' ev
    assume e: "evs = evs' @ [ev]" and le: "resets (get_hr hp duration_sec evs') \<le> MAX_RESETS"
    have st: "?s = session_step hp duration_sec ev (get_hr hp duration_sec evs')"
      unfolding e get_hr_def by (simp add: run_append)
    show "pc ?s = Finalize
             \<and> (pc (get_hr hp duration_sec evs') = InitSensor
                \<or> (\<exists>g. pc (get_hr hp duration_sec evs') = InNext g))"
      using resets_cross [OF le, of hp duration_sec ev] assms unfolding st by blast
  qed
  from main cross show ?thesis unfolding final_avg_nearest by blast
qed

theorem reset_bound_ends_session_witness:
  "MAX_RESETS < resets (get_hr demo_hp 60 fault_events)
   \<and> pc (get_hr demo_hp 60 fault_events) = Finalize
   \<and> good_bpms (get_hr demo_hp 60 fault_events) = [60, 65]
   \<and> pc (session_step demo_hp 60 (Worker (demo_resp 31 900)) (get_hr demo_hp 60 fault_events)) = Done
   \<and> done_flag (session_step demo_hp 60 (Worker (demo_resp 31 900)) (get_hr demo_hp 60 fault_events))
   \<and> avg (session_step demo_hp 60 (Worker (demo_resp 31 900)) (get_hr demo_hp 60 fault_events))
       = Some 62
   \<and> fault_events = fault_prefix @ [Worker fault_resp]
   \<and> resets (get_hr demo_hp 60 fault_prefix) \<le> MAX_RESETS
   \<and> pc (get_hr demo_hp 60 fault_prefix) = InitSensor"
proof -
  have h: "MAX_RESETS < resets (get_hr demo_hp 60 fault_events)"
    by (simp add: fault_run MAX_RESETS_def)
  show ?thesis
    using h reset_bound_ends_session [OF h, of "demo_resp 31 900"]
    by (simp add: fault_run fault_prefix_run fault_events_split [symmetric] float_simps
        py_round_def MAX_RESETS_def)
qed

text \<open>
  C9. Under every interleaving of worker and consumer the live queue holds at most 256
  items. A push on a full queue returns at once with \<open>queue.Full\<close>, which the worker
  swallows: whatever the worker does next on a full queue (a live line, a diagnostic line,
  the end marker), the queue's contents stay as they are.
\<close>

theorem live_queue_bounded_nonblocking:
  "length (q (get_hr hp duration_sec evs)) \<le> 256
   \<and> (length qu = 256 \<longrightarrow> put_nowait qu x = Inl QueueFull \<and> try_put qu x = qu)
   \<and> (length (q s) = 256 \<longrightarrow> q (session_step hp duration_sec (Worker r) s) = q s)"
  using queue_run [of hp duration_sec evs] worker_step_full [of s hp duration_sec r]
  by (simp add: get_hr_def maxsize_def try_put_def put_nowait_def)

theorem live_queue_bounded_nonblocking_witness:
  "length (q (get_hr demo_hp 60 fault_events)) \<le> 256
   \<and> length (replicate 256 (Some ''LIVE  --'')) = 256
   \<and> put_nowait (replicate 256 (Some ''LIVE  --'')) None = Inl QueueFull
   \<and> try_put (replicate 256 (Some ''LIVE  --'')) None = replicate 256 (Some ''LIVE  --'')
   \<and> q (session_step demo_hp 60 (Worker fault_resp)
           (session0\<lparr>pc := InitSensor, q := replicate 256 (Some ''LIVE  --'')\<rparr>))
       = replicate 256 (Some ''LIVE  --'')"
  using live_queue_bounded_nonblocking [of demo_hp 60 fault_events
      "replicate 256 (Some ''LIVE  --'')" None
      "session0\<lparr>pc := InitSensor, q := replicate 256 (Some ''LIVE  --'')\<rparr>" fault_resp]
  by simp

text \<open>
  C5, as stated, fails on the text of the line: for a first estimate of 72 the line is
  \<open>LIVE  72 BPM\<close>, with one blank before \<open>BPM\<close>, not two, and the default line has
  two blanks before the dashes, not one. It also fails on the value in double arithmetic:
  for the previous value 60.1 and the estimate 69.7 (both doubles) the smoothed value is
  62.5 and the line says 62, while the exact \<open>0.25 * 69.7 + 0.75 * 60.1\<close> of these doubles
  lies above 62.5 and rounds to 63.
\<close>

theorem live_tick_counterexample:
  "live_tick (Some 72, ''ok'') None []
     \<noteq> (Some 72, [72], ''LIVE  '' @ str_int (py_round 72) @ ''  BPM'')
   \<and> live_tick (None, ''unknown'') None [] \<noteq> (None, [], ''LIVE --'')
   \<and> fl (8458323050155213 / 140737488355328) = 8458323050155213 / 140737488355328
   \<and> fl (4904701469183181 / 70368744177664) = 4904701469183181 / 70368744177664
   \<and> smooth (Some (8458323050155213 / 140737488355328)) (4904701469183181 / 70368744177664)
       \<noteq> EMA_ALPHA * (4904701469183181 / 70368744177664)
          + (1 - EMA_ALPHA) * (8458323050155213 / 140737488355328)
   \<and> py_round (smooth (Some (8458323050155213 / 140737488355328))
                 (4904701469183181 / 70368744177664)) = 62
   \<and> py_round (EMA_ALPHA * (4904701469183181 / 70368744177664)
                 + (1 - EMA_ALPHA) * (8458323050155213 / 140737488355328)) = 63"
  by (simp add: live_tick_def smooth_def status_msg_def EMA_ALPHA_def float_simps py_round_def)

text \<open>
  C5, amended. On a valid estimate the smoothed value is the recurrence
  \<open>EMA_ALPHA * raw + (1 - EMA_ALPHA) * previous\<close> computed in doubles (the difference, each
  product and the sum rounded to the nearest double), the first valid value seeding the
  state unsmoothed; the smoothed value is appended to the accepted list and the line is
  \<open>LIVE\<close>, two blanks, the rounded smoothed value, one blank, \<open>BPM\<close>. On an absent estimate
  the smoother state and the accepted list stay as they are and the line is the fixed text
  of the failure tag, by default \<open>LIVE\<close>, two blanks, two dashes. In both cases the line is
  offered to the live queue.
\<close>

theorem live_tick_update:
  "live_tick (Some bpm, status) prev good
     = (Some (smooth prev bpm), good @ [smooth prev bpm],
        ''LIVE  '' @ str_int (py_round (smooth prev bpm)) @ '' BPM'')
   \<and> smooth None bpm = fl bpm
   \<and> smooth (Some p) bpm = fl (fl (EMA_ALPHA * fl bpm) + fl (fl (1 - EMA_ALPHA) * fl p))
   \<and> live_tick (None, status) prev good
     = (prev, good,
        if status = ''noisy'' then ''LIVE  --  (noisy / adjust finger)''
        else if status = ''error'' then ''LIVE  --  (processing error)''
        else if status = ''out_of_range'' then ''LIVE  --  (out of range)''
        else ''LIVE  --'')
   \<and> prev_live (process_window hp w s)
     = fst (live_tick (compute_bpm hp (snd w) SAMPLE_HZ) (prev_live s) (good_bpms s))
   \<and> good_bpms (process_window hp w s)
     = fst (snd (live_tick (compute_bpm hp (snd w) SAMPLE_HZ) (prev_live s) (good_bpms s)))
   \<and> q (process_window hp w s)
     = try_put (q s)
         (Some (snd (snd (live_tick (compute_bpm hp (snd w) SAMPLE_HZ) (prev_live s) (good_bpms s)))))"
  by (simp add: live_tick_def smooth_def status_msg_def process_window_def Let_def
      USE_CHANNEL_def str_lower_def lower_char_def fadd_def fmul_def fsub_def)

theorem live_tick_update_witness:
  "live_tick (Some (697 / 10), ''ok'') (Some (601 / 10)) [601 / 10]
     = (Some (125 / 2), [601 / 10, 125 / 2], ''LIVE  62 BPM'')
   \<and> live_tick (Some 80, ''ok'') (Some 60) [60] = (Some 65, [60, 65], ''LIVE  65 BPM'')
   \<and> live_tick (None, ''out_of_range'') (Some 60) [60] = (Some 60, [60], ''LIVE  --  (out of range)'')
   \<and> live_tick (None, ''other'') None [] = (None, [], ''LIVE  --'')"
  using live_tick_update [of "697 / 10" "''ok''" "Some (601 / 10)" "[601 / 10]" "601 / 10"]
    live_tick_update [of 80 "''ok''" "Some 60" "[60]" 60]
    live_tick_update [of 80 "''out_of_range''" "Some 60" "[60]" 60]
    live_tick_update [of 80 "''other''" None "[]" 60]
  by (simp add: smooth_def EMA_ALPHA_def py_round_def str_int_def str_nat.simps float_simps)

text \<open>
  C6, as stated, fails for the initial fill: with a sensor that has no samples the fill
  times out after 30 seconds and the pass ends with empty buffers, not with 800 samples.
\<close>

theorem collect_window_counterexample:
  "collect_next need_samples step_samples [idle_resp 0, idle_resp 0, idle_resp 31] GenNew
     = Yield (Poll [] [])
   \<and> length (buf_ir (Poll [] [])) \<noteq> need_samples"
  by (simp add: idle_resp_def need_samples_def SAMPLE_HZ_def WINDOW_SEC_def extend_both_def
      fill_timeout_def last_n_def)

text \<open>
  C6, amended. For a positive window length, after every collection pass each per-channel
  buffer holds at most the window length; the infrared buffer holds exactly the window
  length after every pass that follows a yield, and after an initial fill during which the
  timeout did not strike; the red buffer is as long as the infrared one when the sensor's
  reads have as many red as infrared samples.
\<close>

theorem collect_window_length:
  assumes "0 < need" "collect_next need step rs g = Yield g'"
  shows "length (buf_red g') \<le> need \<and> length (buf_ir g') \<le> need
       \<and> ((\<exists>red ir. g = Poll red ir) \<longrightarrow> length (buf_ir g') = need)
       \<and> (g = GenNew \<and> (\<forall>r\<in>set rs. clock r - clock (hd rs) \<le> fill_timeout)
            \<longrightarrow> length (buf_ir g') = need)
       \<and> (length (buf_red g) = length (buf_ir g)
            \<and> (\<forall>r\<in>set rs. \<forall>a b. sensor_read r = Inr (a, b) \<longrightarrow> length a = length b)
            \<longrightarrow> length (buf_red g') = length (buf_ir g'))"
proof -
  have a: "length (buf_red g') \<le> need \<and> length (buf_ir g') \<le> need"
    using collect_next_yield [OF assms] .
  have b: "(\<exists>red ir. g = Poll red ir) \<longrightarrow> length (buf_ir g') = need"
    using collect_next_poll [OF assms(1)] assms(2) by blast
  have c: "g = GenNew \<and> (\<forall>r\<in>set rs. clock r - clock (hd rs) \<le> fill_timeout)
            \<longrightarrow> length (buf_ir g') = need"
  proof (intro impI, elim conjE)
    assume g: "g = GenNew" and t: "\<forall>r\<in>set rs. clock r - clock (hd rs) \<le> fill_timeout"
    obtain r rs' where rs: "rs = r # rs'" using assms(2) by (cases rs) auto
    have "collect_next need step rs' (FillRead [] [] (clock r)) = Yield g'"
      using assms rs g by simp
    moreover have "\<forall>x\<in>set rs'. clock x - clock r \<le> fill_timeout" using t rs by simp
    ultimately show "length (buf_ir g') = need"
      using collect_next_fill [OF assms(1), of step rs' "FillRead [] [] (clock r)" g' "clock r"]
      by blast
  qed
  have d: "length (buf_red g) = length (buf_ir g)
            \<and> (\<forall>r\<in>set rs. \<forall>a b. sensor_read r = Inr (a, b) \<longrightarrow> length a = length b)
            \<longrightarrow> length (buf_red g') = length (buf_ir g')"
    using collect_next_same_length [OF assms(2)] by blast
  from a b c d show ?thesis by blast
qed

theorem collect_window_length_witness:
  "(0 :: nat) < 800
   \<and> collect_next 800 100 [demo_resp 0 60, demo_resp 0 900, demo_resp 1 900] GenNew
       = Yield (Poll (replicate 800 1) (replicate 800 1))
   \<and> collect_next 800 100 [demo_resp 2 900] (Poll (replicate 800 1) (replicate 800 1))
       = Yield (Poll (replicate 800 1) (replicate 800 1))
   \<and> length (buf_red (Poll (replicate 800 1) (replicate 800 1))) = 800
   \<and> length (buf_ir (Poll (replicate 800 1) (replicate 800 1))) = 800"
proof -
  have p: "(0 :: nat) < 800" by simp
  have x: "collect_next 800 100 [demo_resp 0 60, demo_resp 0 900, demo_resp 1 900] GenNew
       = Yield (Poll (replicate 800 1) (replicate 800 1))"
    by (simp add: demo_resp_def extend_both_def fill_timeout_def WINDOW_SEC_def last_n_def)
  have y: "collect_next 800 100 [demo_resp 2 900] (Poll (replicate 800 1) (replicate 800 1))
       = Yield (Poll (replicate 800 1) (replicate 800 1))"
    by (simp add: demo_resp_def last_n_def)
  show ?thesis
    using p x y collect_window_length [OF p x] collect_window_length [OF p y]
    by simp
qed

text \<open>
  C8. For every valid thermometer reading and every rounding policy, \<^verbatim>\<open>read_temp\<close> with
  scale \<open>F\<close> returns the one-decimal rounding of \<open>v * 9 / 5 + 32\<close>, where \<open>v\<close> is what it
  returns with scale \<open>C\<close>: the reading after the rounding policy.
\<close>

theorem fahrenheit_from_celsius:
  assumes "read_temp_c_float env 3 = Inr t"
  shows "read_temp env ''C'' rounding =
           [(''ok'', PBool True),
            (''tempC'', PFloat (if rounding = ''floor'' then of_int \<lfloor>t\<rfloor>
                                else if rounding = ''ceil'' then of_int \<lceil>t\<rceil>
                                else py_round1 t))]
       \<and> read_temp env ''F'' rounding =
           [(''ok'', PBool True),
            (''tempF'', PFloat (py_round1
               ((if rounding = ''floor'' then of_int \<lfloor>t\<rfloor>
                 else if rounding = ''ceil'' then of_int \<lceil>t\<rceil>
                 else py_round1 t) * 9 / 5 + 32)))]"
  using assms by (simp add: read_temp_def str_upper_def upper_char_def)

theorem fahrenheit_from_celsius_witness:
  "read_temp_c_float demo_w1 3 = Inr (23125 / 1000)
   \<and> read_temp demo_w1 ''C'' ''nearest'' = [(''ok'', PBool True), (''tempC'', PFloat (231 / 10))]
   \<and> read_temp demo_w1 ''F'' ''nearest'' = [(''ok'', PBool True), (''tempF'', PFloat (736 / 10))]
   \<and> py_round1 (231 / 10 * 9 / 5 + 32) = 736 / 10"
  using fahrenheit_from_celsius [OF demo_w1_reading, of "''nearest''"]
  by (simp add: demo_w1_reading py_round1_def py_round_def)

text \<open>
  C7. When the temperature read fails, \<^verbatim>\<open>get_vitals\<close> still starts the heart-rate
  session: the live iterator yields the temperature error line first and then the lines of
  the heart-rate session, and the final-result accessor returns \<open>ok: False\<close> with the
  temperature error and no heart-rate average. With no device file the error is the
  message of \<^verbatim>\<open>_get_device_file\<close>.
\<close>

theorem temperature_failure_keeps_heart_rate:
  assumes "read_temp_c_float env 3 = Inl e"
  shows "final (get_vitals env fmt hp duration_sec scale evs)
           = Some [(''ok'', PBool False), (''error'', PStr (str_exn e))]
       \<and> live (get_vitals env fmt hp duration_sec scale evs)
           = (if Consumer \<in> set evs
              then (''TEMP ERROR: '' @ str_exn e) # lines (get_hr hp duration_sec (remove1 Consumer evs))
              else [])
       \<and> (devices env = [] \<longrightarrow> e = FileNotFoundError no_device_msg)"
  using assms
  by (auto simp: get_vitals_def read_temp_def dict_get_def Let_def read_temp_c_float_def
      get_device_file_def)

theorem temperature_failure_keeps_heart_rate_witness:
  "read_temp_c_float no_w1 3 = Inl (FileNotFoundError no_device_msg)
   \<and> final (get_vitals no_w1 (\<lambda>x. ''0.0'') demo_hp 60 ''C'' (Consumer # demo_events))
       = Some [(''ok'', PBool False), (''error'', PStr no_device_msg)]
   \<and> live (get_vitals no_w1 (\<lambda>x. ''0.0'') demo_hp 60 ''C'' (Consumer # demo_events))
       = [''TEMP ERROR: '' @ no_device_msg, ''LIVE  60 BPM'', ''LIVE  65 BPM'', ''LIVE  69 BPM'']"
  using temperature_failure_keeps_heart_rate [OF no_w1_reading, of "\<lambda>x. ''0.0''" demo_hp 60 "''C''" "Consumer # demo_events"]
  by (simp add: no_w1_reading demo_run)

text \<open>
  C2 fails when the queue is full at the end of the session. In a session of 300 seconds
  whose estimator fails on every window (a flat signal) and whose consumer takes nothing
  while the worker runs, 256 lines fill the queue; at the deadline the end marker is
  refused and dropped. The session is complete and \<^verbatim>\<open>wait_avg\<close> returns, but however
  many turns the consumer then takes, it gets the 256 lines and never the end marker: its
  loop does not end.
\<close>

theorem end_marker_dropped_on_full_queue:
  "done_flag (get_hr flat_hp 300 (full_events k))
   \<and> wait_avg (get_hr flat_hp 300 (full_events k)) = Some None
   \<and> None \<notin> set (q (get_hr flat_hp 300 (full_events k)))
   \<and> lines (get_hr flat_hp 300 (full_events k))
       = replicate (min k 256) ''LIVE  --  (processing error)''
   \<and> \<not> ended (get_hr flat_hp 300 (full_events k))"
proof -
  let ?w = "Worker (flat_resp 0)"
  let ?s0 = "run flat_hp 300 [?w, ?w, ?w, ?w, ?w, ?w] session0"
  let ?s1 = "run flat_hp 300 (concat (replicate 256 [?w, ?w])) ?s0"
  let ?l = "Worker (flat_resp 300)"
  let ?s2 = "run flat_hp 300 [?l, ?l, ?l] ?s1"
  let ?x = "''LIVE  --  (processing error)''"
  have a: "pc ?s0 = InnerTest (Poll (replicate 800 0) (replicate 800 0)) \<and> start_t ?s0 = 0
         \<and> q ?s0 = [] \<and> good_bpms ?s0 = [] \<and> lines ?s0 = [] \<and> \<not> ended ?s0"
    using flat_start .
  then have a': "q ?s0 = replicate 0 (Some ?x)" by simp
  have b: "pc ?s1 = pc ?s0 \<and> start_t ?s1 = 0 \<and> q ?s1 = replicate maxsize (Some ?x)
         \<and> good_bpms ?s1 = [] \<and> lines ?s1 = [] \<and> \<not> ended ?s1"
    using flat_ticks [of ?s0 0 256] a a' by (simp add: maxsize_def)
  then have c: "pc ?s2 = Done \<and> q ?s2 = replicate maxsize (Some ?x) \<and> done_flag ?s2
         \<and> avg ?s2 = None \<and> lines ?s2 = [] \<and> \<not> ended ?s2"
    using flat_end [of ?s1 "Poll (replicate 800 0) (replicate 800 0)" ?x] a by simp
  have d: "get_hr flat_hp 300 (full_events k) = run flat_hp 300 (replicate k Consumer) ?s2"
    by (simp only: get_hr_def full_events_def run_append)
  show ?thesis
    unfolding d using consumer_turns [of ?s2 maxsize ?x flat_hp 300 k] c
    by (simp add: wait_avg_def maxsize_def)
qed

end
